theory Spec2Isabelle
  imports Complex_Main "HOL-Library.Word"
begin

section \<open>Zag-NetStats: a shallow embedding of \<^verbatim>\<open>cmd/main.go\<close>\<close>

text \<open>
  The program polls the byte counters of one network interface, turns the difference of
  two readings into a speed and the difference to the first reading into a usage, scales
  both to a binary unit and prints them. The counters are \<^verbatim>\<open>uint64\<close>, modelled as
  \<^typ>\<open>64 word\<close>; the scaled values are \<^verbatim>\<open>float64\<close>, modelled below as the
  rationals that binary64 can hold, with every arithmetic result rounded to nearest, ties
  to even. Go's \<^verbatim>\<open>int\<close> (interval, precision) is only converted and compared, never
  added to, and is modelled as \<^typ>\<open>int\<close>.
\<close>

subsection \<open>binary64 arithmetic\<close>

text \<open>\<open>ilog2 n\<close> is the position of the leading bit of \<open>n\<close> (0 for \<open>n < 2\<close>).\<close>

function ilog2 :: "int \<Rightarrow> int" where
  "ilog2 n = (if n < 2 then 0 else 1 + ilog2 (n div 2))"
  by auto
termination
  by (relation "measure nat") auto

declare ilog2.simps [simp del]

text \<open>The binary exponent of a positive rational: \<open>2 powi expo x \<le> x < 2 powi (expo x + 1)\<close>.\<close>

definition expo :: "rat \<Rightarrow> int" where
  "expo x =
     (if 1 \<le> x then ilog2 \<lfloor>x\<rfloor>
      else (let k = ilog2 \<lfloor>1 / x\<rfloor>
            in if x * 2 powi k = 1 then - k else - k - 1))"

text \<open>Rounding to the nearest integer, a tie to the even neighbour.\<close>

definition rne :: "rat \<Rightarrow> int" where
  "rne y =
     (let f = \<lfloor>y\<rfloor>; r = y - of_int f
      in if r < 1 / 2 then f
         else if 1 / 2 < r then f + 1
         else if even f then f else f + 1)"

text \<open>
  The spacing of binary64 numbers around a positive \<open>x\<close>: 53 significant bits, and the
  fixed spacing \<open>2 powi - 1074\<close> of the subnormal range below \<open>2 powi - 1022\<close>.
\<close>

definition ulp :: "rat \<Rightarrow> rat" where
  "ulp x = 2 powi (max (expo x) (- 1022) - 52)"

text \<open>Round to nearest, ties to even, with the exponent not yet bounded above.\<close>

definition fl64 :: "rat \<Rightarrow> rat" where
  "fl64 x =
     (if x = 0 then 0
      else if 0 < x then of_int (rne (x / ulp x)) * ulp x
      else - (of_int (rne (- x / ulp (- x))) * ulp (- x)))"

text \<open>
  A \<^verbatim>\<open>float64\<close>: a finite number, an infinity or a NaN. The sign of zero is not kept
  (it changes no comparison; the program could only produce a negative zero from a
  negative interval, which \<^verbatim>\<open>main\<close> rejects).
\<close>

datatype float64 = Fin rat | PInf | NInf | NaN

text \<open>Overflow: a rounded result of magnitude \<open>2 powi 1024\<close> or more is an infinity.\<close>

definition round64 :: "rat \<Rightarrow> float64" where
  "round64 x =
     (let r = fl64 x
      in if r = 0 then Fin 0
         else if 1024 \<le> expo \<bar>r\<bar> then (if 0 < r then PInf else NInf)
         else Fin r)"

text \<open>The conversions \<^verbatim>\<open>float64(bytes)\<close> of a \<^verbatim>\<open>uint64\<close> and \<^verbatim>\<open>float64(interval)\<close> of an \<^verbatim>\<open>int\<close>.\<close>

definition float64_of_uint64 :: "64 word \<Rightarrow> float64" where
  "float64_of_uint64 w = round64 (of_int (uint w))"

definition float64_of_int :: "int \<Rightarrow> float64" where
  "float64_of_int i = round64 (of_int i)"

text \<open>Division \<^verbatim>\<open>x / y\<close> on \<^verbatim>\<open>float64\<close>.\<close>

fun fdiv :: "float64 \<Rightarrow> float64 \<Rightarrow> float64" where
  "fdiv NaN _ = NaN"
| "fdiv _ NaN = NaN"
| "fdiv (Fin x) (Fin y) =
     (if y = 0 then (if x = 0 then NaN else if 0 < x then PInf else NInf)
      else round64 (x / y))"
| "fdiv (Fin x) PInf = Fin 0"
| "fdiv (Fin x) NInf = Fin 0"
| "fdiv PInf (Fin y) = (if 0 \<le> y then PInf else NInf)"
| "fdiv NInf (Fin y) = (if 0 \<le> y then NInf else PInf)"
| "fdiv PInf PInf = NaN"
| "fdiv PInf NInf = NaN"
| "fdiv NInf PInf = NaN"
| "fdiv NInf NInf = NaN"

text \<open>Multiplication \<^verbatim>\<open>x * y\<close> on \<^verbatim>\<open>float64\<close>.\<close>

fun fmul :: "float64 \<Rightarrow> float64 \<Rightarrow> float64" where
  "fmul NaN _ = NaN"
| "fmul _ NaN = NaN"
| "fmul (Fin x) (Fin y) = round64 (x * y)"
| "fmul (Fin x) PInf = (if x = 0 then NaN else if 0 < x then PInf else NInf)"
| "fmul (Fin x) NInf = (if x = 0 then NaN else if 0 < x then NInf else PInf)"
| "fmul PInf (Fin y) = (if y = 0 then NaN else if 0 < y then PInf else NInf)"
| "fmul NInf (Fin y) = (if y = 0 then NaN else if 0 < y then NInf else PInf)"
| "fmul PInf PInf = PInf"
| "fmul PInf NInf = NInf"
| "fmul NInf PInf = NInf"
| "fmul NInf NInf = PInf"

text \<open>The comparison \<^verbatim>\<open>x >= y\<close>: false as soon as one side is a NaN.\<close>

fun fge :: "float64 \<Rightarrow> float64 \<Rightarrow> bool" where
  "fge NaN _ = False"
| "fge _ NaN = False"
| "fge (Fin x) (Fin y) = (y \<le> x)"
| "fge PInf _ = True"
| "fge _ NInf = True"
| "fge (Fin x) PInf = False"
| "fge NInf (Fin y) = False"
| "fge NInf PInf = False"

text \<open>\<^verbatim>\<open>math.Round\<close>: the nearest integer, a half away from zero; exact.\<close>

fun Round :: "float64 \<Rightarrow> float64" where
  "Round (Fin x) = Fin (of_int (if 0 \<le> x then \<lfloor>x + 1 / 2\<rfloor> else - \<lfloor>- x + 1 / 2\<rfloor>))"
| "Round v = v"

text \<open>
  \<^verbatim>\<open>math.Pow(10, float64(precision))\<close>. For \<open>0 \<le> p \<le> 22\<close> the power of ten is a
  binary64 number and the library returns it exactly; this covers every precision that
  \<^verbatim>\<open>main\<close> lets through (0 to 6). Outside that range the model takes the correctly
  rounded power, and no statement below about a value depends on it.
\<close>

definition Pow10 :: "int \<Rightarrow> float64" where
  "Pow10 p = round64 (10 powi p)"

subsection \<open>The unit scaler\<close>

text \<open>\<^verbatim>\<open>const ( KB = 1024.0; MB = KB * 1024; GB = MB * 1024 )\<close>\<close>

definition KB :: float64 where "KB = Fin 1024"
definition MB :: float64 where "MB = Fin (1024 * 1024)"
definition GB :: float64 where "GB = Fin (1024 * 1024 * 1024)"

record Speed =
  Value :: float64
  Unit :: string

record Usage =
  Value :: float64
  Unit :: string

text \<open>
  \<^verbatim>\<open>func round(value float64, precision int) float64\<close>:
  \<^verbatim>\<open>multiplier := math.Pow(10, float64(precision));
  return math.Round(value*multiplier) / multiplier\<close>
\<close>

definition round_f64 :: "float64 \<Rightarrow> int \<Rightarrow> float64" where
  "round_f64 v p = (let multiplier = Pow10 p in fdiv (Round (fmul v multiplier)) multiplier)"

definition calculateSpeed :: "64 word \<Rightarrow> int \<Rightarrow> int \<Rightarrow> Speed" where
  "calculateSpeed bytes interval p =
     (let speed = fdiv (float64_of_uint64 bytes) (float64_of_int interval)
      in if fge speed GB then \<lparr>Speed.Value = round_f64 (fdiv speed GB) p, Unit = ''GB/s''\<rparr>
         else if fge speed MB then \<lparr>Speed.Value = round_f64 (fdiv speed MB) p, Unit = ''MB/s''\<rparr>
         else if fge speed KB then \<lparr>Speed.Value = round_f64 (fdiv speed KB) p, Unit = ''KB/s''\<rparr>
         else \<lparr>Speed.Value = round_f64 speed p, Unit = ''B/s''\<rparr>)"

definition calculateUsage :: "64 word \<Rightarrow> int \<Rightarrow> Usage" where
  "calculateUsage bytes p =
     (let usage = float64_of_uint64 bytes
      in if fge usage GB then \<lparr>Usage.Value = round_f64 (fdiv usage GB) p, Unit = ''GB''\<rparr>
         else if fge usage MB then \<lparr>Usage.Value = round_f64 (fdiv usage MB) p, Unit = ''MB''\<rparr>
         else if fge usage KB then \<lparr>Usage.Value = round_f64 (fdiv usage KB) p, Unit = ''KB''\<rparr>
         else \<lparr>Usage.Value = round_f64 usage p, Unit = ''B''\<rparr>)"

subsection \<open>The counter source\<close>

text \<open>
  \<^verbatim>\<open>net.IOCountersStat\<close> of gopsutil, with the fields the program reads. One call of
  \<^verbatim>\<open>net.IOCounters(true)\<close> gives an error or the list of all interfaces; the message
  of the error stands for the error.
\<close>

record IOCountersStat =
  Name :: string
  BytesSent :: "64 word"
  BytesRecv :: "64 word"

type_synonym query = "string + IOCountersStat list"

definition getInterfaceIOCounters :: "string \<Rightarrow> query \<Rightarrow> string + IOCountersStat" where
  "getInterfaceIOCounters ifaceName q =
     (case q of
        Inl err \<Rightarrow> Inl err
      | Inr netIO \<Rightarrow>
          (case find (\<lambda>io. Name io = ifaceName) netIO of
             Some io \<Rightarrow> Inr io
           | None \<Rightarrow> Inl (''interface not found: '' @ ifaceName)))"

subsection \<open>The monitor and its loop\<close>

record NetStats =
  Interface :: string
  SentSpeed :: Speed
  RecvSpeed :: Speed
  TotalSent :: Usage
  TotalRecv :: Usage
  TotalUsage :: Usage

text \<open>
  \<^verbatim>\<open>NetworkMonitor\<close>. The channel \<^verbatim>\<open>interrupt\<close> is the \<open>Interrupt\<close> event below; the
  mutex guards a field that only the loop writes and is left out.
\<close>

record NetworkMonitor =
  interfaceName :: string
  refreshInterval :: int
  precision :: int
  format :: string
  stats :: NetStats

definition zero_NetStats :: NetStats where
  "zero_NetStats =
     \<lparr>Interface = [],
      SentSpeed = \<lparr>Speed.Value = Fin 0, Unit = []\<rparr>,
      RecvSpeed = \<lparr>Speed.Value = Fin 0, Unit = []\<rparr>,
      TotalSent = \<lparr>Usage.Value = Fin 0, Unit = []\<rparr>,
      TotalRecv = \<lparr>Usage.Value = Fin 0, Unit = []\<rparr>,
      TotalUsage = \<lparr>Usage.Value = Fin 0, Unit = []\<rparr>\<rparr>"

definition NewNetworkMonitor :: "string \<Rightarrow> int \<Rightarrow> int \<Rightarrow> string \<Rightarrow> NetworkMonitor" where
  "NewNetworkMonitor iface interval prec fmt =
     \<lparr>interfaceName = iface, refreshInterval = interval, precision = prec, format = fmt,
      stats = zero_NetStats\<rparr>"

text \<open>
  What the process writes. On standard output: a table rendered from the statistics and
  the precision, the JSON encoding of the statistics, or plain text. On standard error:
  a line of the logger, or the usage message of package \<^verbatim>\<open>flag\<close>.
\<close>

datatype out_item = TableOut NetStats int | JsonOut NetStats | TextOut string

datatype err_item = Log string | FlagUsage

text \<open>\<^verbatim>\<open>printTable\<close> formats every value with \<^verbatim>\<open>%.*f\<close> and renders one row.\<close>

definition printTable :: "NetStats \<Rightarrow> int \<Rightarrow> out_item list" where
  "printTable s p = [TableOut s p]"

text \<open>
  \<^verbatim>\<open>printJSON\<close>. \<^verbatim>\<open>json.Marshal\<close> refuses a value that is not finite, with an error
  that names the first such field; the function logs it and still prints the (then
  empty) data and a newline.
\<close>

fun float_text :: "float64 \<Rightarrow> string" where
  "float_text NaN = ''NaN''"
| "float_text PInf = ''+Inf''"
| "float_text NInf = ''-Inf''"
| "float_text (Fin r) = []"

fun is_Fin :: "float64 \<Rightarrow> bool" where
  "is_Fin (Fin r) = True"
| "is_Fin v = False"

definition unsupported_value :: "NetStats \<Rightarrow> float64 option" where
  "unsupported_value s =
     find (\<lambda>v. \<not> is_Fin v)
       [Speed.Value (SentSpeed s), Speed.Value (RecvSpeed s), Usage.Value (TotalSent s),
        Usage.Value (TotalRecv s), Usage.Value (TotalUsage s)]"

definition printJSON :: "NetStats \<Rightarrow> out_item list \<times> err_item list" where
  "printJSON s =
     (case unsupported_value s of
        None \<Rightarrow> ([JsonOut s], [])
      | Some v \<Rightarrow>
          ([TextOut [CHR 0x0A]],
           [Log (''Error marshaling to JSON: json: unsupported value: '' @ float_text v)]))"

text \<open>The choice of the renderer, lines 221 to 225.\<close>

definition print_stats :: "NetworkMonitor \<Rightarrow> NetStats \<Rightarrow> out_item list \<times> err_item list" where
  "print_stats m s =
     (if format m = ''table'' then (printTable s (precision m), []) else printJSON s)"

text \<open>
  The variables of \<^verbatim>\<open>collectStats\<close> that live across iterations, with the monitor
  and the two output streams.
\<close>

record loop_state =
  nm :: NetworkMonitor
  totalSentStart :: "64 word"
  totalRecvStart :: "64 word"
  prevNetIO :: IOCountersStat
  stdout :: "out_item list"
  stderr :: "err_item list"

text \<open>The four local quantities of one iteration, lines 202 to 206; \<^verbatim>\<open>uint64\<close> subtraction wraps.\<close>

definition sentBytes :: "loop_state \<Rightarrow> IOCountersStat \<Rightarrow> 64 word" where
  "sentBytes st currentNetIO = BytesSent currentNetIO - BytesSent (prevNetIO st)"

definition recvBytes :: "loop_state \<Rightarrow> IOCountersStat \<Rightarrow> 64 word" where
  "recvBytes st currentNetIO = BytesRecv currentNetIO - BytesRecv (prevNetIO st)"

definition totalSent :: "loop_state \<Rightarrow> IOCountersStat \<Rightarrow> 64 word" where
  "totalSent st currentNetIO = BytesSent currentNetIO - totalSentStart st"

definition totalRecv :: "loop_state \<Rightarrow> IOCountersStat \<Rightarrow> 64 word" where
  "totalRecv st currentNetIO = BytesRecv currentNetIO - totalRecvStart st"

text \<open>The \<^verbatim>\<open>NetStats\<close> literal of lines 208 to 215.\<close>

definition make_stats :: "loop_state \<Rightarrow> IOCountersStat \<Rightarrow> NetStats" where
  "make_stats st currentNetIO =
     \<lparr>Interface = interfaceName (nm st),
      SentSpeed = calculateSpeed (sentBytes st currentNetIO) (refreshInterval (nm st)) (precision (nm st)),
      RecvSpeed = calculateSpeed (recvBytes st currentNetIO) (refreshInterval (nm st)) (precision (nm st)),
      TotalSent = calculateUsage (totalSent st currentNetIO) (precision (nm st)),
      TotalRecv = calculateUsage (totalRecv st currentNetIO) (precision (nm st)),
      TotalUsage = calculateUsage (totalSent st currentNetIO + totalRecv st currentNetIO) (precision (nm st))\<rparr>"

text \<open>
  One firing of the ticker (\<^verbatim>\<open>case <-ticker.C\<close>), given what the counter query
  returns at that moment. A failed query logs and \<^verbatim>\<open>continue\<close>s.
\<close>

definition tick :: "loop_state \<Rightarrow> query \<Rightarrow> loop_state" where
  "tick st q =
     (case getInterfaceIOCounters (interfaceName (nm st)) q of
        Inl err \<Rightarrow> st\<lparr>stderr := stderr st @ [Log (''Error getting network stats: '' @ err)]\<rparr>
      | Inr currentNetIO \<Rightarrow>
          (let s = make_stats st currentNetIO;
               (so, se) = print_stats (nm st) s
           in st\<lparr>nm := (nm st)\<lparr>stats := s\<rparr>,
                 stdout := stdout st @ so,
                 stderr := stderr st @ se,
                 prevNetIO := currentNetIO\<rparr>))"

text \<open>
  The \<^verbatim>\<open>select\<close> loop, driven by the events that arrive: a tick with the answer of the
  counter query, or a signal. The result says whether the loop has returned (on a
  signal) or is still waiting when the events end.
\<close>

datatype event = Tick query | Interrupt

fun loop :: "loop_state \<Rightarrow> event list \<Rightarrow> loop_state \<times> bool" where
  "loop st [] = (st, False)"
| "loop st (Interrupt # es) = (st, True)"
| "loop st (Tick q # es) = loop (tick st q) es"

text \<open>The state in which \<^verbatim>\<open>collectStats\<close> enters the loop, lines 186 to 188.\<close>

definition init_state :: "NetworkMonitor \<Rightarrow> IOCountersStat \<Rightarrow> loop_state" where
  "init_state m initialNetIO =
     \<lparr>nm = m, totalSentStart = BytesSent initialNetIO, totalRecvStart = BytesRecv initialNetIO,
      prevNetIO = initialNetIO, stdout = [], stderr = []\<rparr>"

text \<open>
  \<^verbatim>\<open>time.Duration(nm.refreshInterval) * time.Second\<close>, an \<^verbatim>\<open>int64\<close> product in
  nanoseconds; \<^verbatim>\<open>time.NewTicker\<close> panics on a duration that is not positive.
\<close>

definition ticker_duration :: "int \<Rightarrow> int" where
  "ticker_duration interval = sint (word_of_int interval * 1000000000 :: 64 word)"

text \<open>
  How \<^verbatim>\<open>collectStats\<close> ends: with an error, with a panic, or in the loop (which has
  returned \<^verbatim>\<open>nil\<close>, or is still waiting).
\<close>

datatype collect_result = Failed string | Panicked string | Ran loop_state bool

definition collectStats :: "NetworkMonitor \<Rightarrow> query \<Rightarrow> event list \<Rightarrow> collect_result" where
  "collectStats m q0 es =
     (case getInterfaceIOCounters (interfaceName m) q0 of
        Inl err \<Rightarrow> Failed (''error getting initial network stats: '' @ err)
      | Inr initialNetIO \<Rightarrow>
          if ticker_duration (refreshInterval m) \<le> 0
          then Panicked ''non-positive interval for NewTicker''
          else (case loop (init_state m initialNetIO) es of
                  (st, returned) \<Rightarrow> Ran st returned))"

subsection \<open>Start-up\<close>

text \<open>The four flags after \<^verbatim>\<open>flag.Parse()\<close>.\<close>

record flags =
  flag_i :: string
  flag_t :: int
  flag_p :: int
  flag_f :: string

text \<open>
  What is known of the process: its exit status once it has exited, and the two streams.
  \<^verbatim>\<open>log.Fatal\<close> writes its message to standard error and exits with status 1; a panic
  that nothing recovers is reported on standard error and exits with status 2.
\<close>

record process =
  exit_status :: "int option"
  out :: "out_item list"
  err :: "err_item list"

definition Fatal :: "out_item list \<Rightarrow> err_item list \<Rightarrow> string \<Rightarrow> process" where
  "Fatal so se msg = \<lparr>exit_status = Some 1, out = so, err = se @ [Log msg]\<rparr>"

definition main :: "flags \<Rightarrow> query \<Rightarrow> event list \<Rightarrow> process" where
  "main fl q0 es =
     (if flag_i fl = [] then
        Fatal [TextOut [CHR 0x0A]] [FlagUsage]
          (''Error: the -i (interface) flag is required.'' @ [CHR 0x0A] @
           ''Usage: ./zag-netStats -i <interface_name> -t <interval> -p <precision> -f <format>'')
      else if flag_p fl < 0 \<or> 6 < flag_p fl then
        Fatal [] [] ''Precision must be between 0 and 6 decimal places''
      else if flag_t fl \<le> 0 \<or> 3600 < flag_t fl then
        Fatal [] [] ''Refresh interval must be between 1 and 3600 seconds''
      else if flag_f fl \<noteq> ''json'' \<and> flag_f fl \<noteq> ''table'' then
        Fatal [] [] ''Invalid output format. Allowed values: json, table''
      else
        (case collectStats (NewNetworkMonitor (flag_i fl) (flag_t fl) (flag_p fl) (flag_f fl)) q0 es of
           Failed e \<Rightarrow> Fatal [] [] (''Network monitoring error: '' @ e)
         | Panicked e \<Rightarrow> \<lparr>exit_status = Some 2, out = [], err = [Log (''panic: '' @ e)]\<rparr>
         | Ran st returned \<Rightarrow>
             \<lparr>exit_status = (if returned then Some 0 else None),
              out = stdout st, err = stderr st\<rparr>))"

subsection \<open>Notions used in the statements\<close>

text \<open>A finite value that is at least 0; a value that is printed with a minus sign.\<close>

fun nonneg :: "float64 \<Rightarrow> bool" where
  "nonneg (Fin r) = (0 \<le> r)"
| "nonneg _ = False"

fun negative :: "float64 \<Rightarrow> bool" where
  "negative (Fin r) = (r < 0)"
| "negative NInf = True"
| "negative _ = False"

definition stats_nonneg :: "NetStats \<Rightarrow> bool" where
  "stats_nonneg s \<longleftrightarrow>
     nonneg (Speed.Value (SentSpeed s)) \<and> nonneg (Speed.Value (RecvSpeed s)) \<and>
     nonneg (Usage.Value (TotalSent s)) \<and> nonneg (Usage.Value (TotalRecv s)) \<and>
     nonneg (Usage.Value (TotalUsage s))"

fun item_nonneg :: "out_item \<Rightarrow> bool" where
  "item_nonneg (TableOut s p) = stats_nonneg s"
| "item_nonneg (JsonOut s) = stats_nonneg s"
| "item_nonneg (TextOut t) = True"

text \<open>The constraints on the flags, as the table of flags in the specification has them.\<close>

definition flags_ok :: "flags \<Rightarrow> bool" where
  "flags_ok fl \<longleftrightarrow>
     flag_i fl \<noteq> [] \<and> 0 \<le> flag_p fl \<and> flag_p fl \<le> 6 \<and> 1 \<le> flag_t fl \<and> flag_t fl \<le> 3600 \<and>
     (flag_f fl = ''json'' \<or> flag_f fl = ''table'')"

text \<open>A run of ticks with no signal in between.\<close>

definition ticks :: "loop_state \<Rightarrow> query list \<Rightarrow> loop_state" where
  "ticks st qs = foldl tick st qs"

text \<open>
  Following the specification's words for its relation between the two scalers,
  \<^verbatim>\<open>scaleUsage(round(bytes/interval), p)\<close>: the rate rounded to the nearest whole
  number of bytes, as the \<^verbatim>\<open>uint64\<close> that \<^verbatim>\<open>calculateUsage\<close> takes.
\<close>

definition spec_rounded_rate :: "64 word \<Rightarrow> int \<Rightarrow> 64 word" where
  "spec_rounded_rate bytes interval =
     word_of_int (round (of_int (uint bytes) / of_int interval :: rat))"

text \<open>The same with the rate cut off to a whole number, \<^verbatim>\<open>bytes / interval\<close> on integers.\<close>

definition truncated_rate :: "64 word \<Rightarrow> int \<Rightarrow> 64 word" where
  "truncated_rate bytes interval = word_of_int (uint bytes div interval)"

section \<open>Facts about the binary64 model\<close>

subsection \<open>Exponents\<close>

lemma ilog2_nonneg: "0 \<le> ilog2 n"
  by (induction n rule: ilog2.induct) (subst ilog2.simps, simp)

lemma ilog2_bounds:
  "1 \<le> n \<Longrightarrow> (2::rat) powi ilog2 n \<le> of_int n \<and> of_int n < (2::rat) powi (ilog2 n + 1)"
proof (induction n rule: ilog2.induct)
  case (1 n)
  show ?case
  proof (cases "n < 2")
    case True
    with "1.prems" have "n = 1" by simp
    then show ?thesis by (simp add: ilog2.simps)
  next
    case False
    then have h: "1 \<le> n div 2" by simp
    from "1.IH" [OF False h]
    have lo: "(2::rat) powi ilog2 (n div 2) \<le> of_int (n div 2)"
      and hi: "of_int (n div 2) < (2::rat) powi (ilog2 (n div 2) + 1)" by simp_all
    have eq: "ilog2 n = 1 + ilog2 (n div 2)" using False by (subst ilog2.simps) simp
    have p1: "(2::rat) powi (1 + ilog2 (n div 2)) = 2 * 2 powi ilog2 (n div 2)"
      by (simp add: power_int_add)
    have p2: "(2::rat) powi (1 + ilog2 (n div 2) + 1) = 2 * 2 powi (ilog2 (n div 2) + 1)"
      by (simp add: power_int_add)
    have a: "2 * (n div 2) \<le> n" by simp
    have b: "n < 2 * (n div 2 + 1)" by presburger
    have "2 * (of_int (n div 2) :: rat) \<le> of_int n"
      using a by (metis of_int_le_iff of_int_mult of_int_numeral)
    with lo have c1: "(2::rat) powi ilog2 n \<le> of_int n" unfolding eq p1 by linarith
    obtain m where m: "ilog2 (n div 2) + 1 = int m"
      using ilog2_nonneg [of "n div 2"] by (metis add_nonneg_nonneg nonneg_int_cases zero_le_one)
    have "n div 2 < 2 ^ m" using hi unfolding m
      by (metis of_int_less_iff of_int_numeral of_int_power power_int_of_nat)
    then have "n div 2 + 1 \<le> 2 ^ m" by simp
    then have "n < 2 * 2 ^ m" using b by linarith
    then have "(of_int n :: rat) < 2 * 2 ^ m"
      by (metis of_int_less_iff of_int_mult of_int_numeral of_int_power)
    then have c2: "of_int n < (2::rat) powi (ilog2 n + 1)" unfolding eq p2 m by simp
    from c1 c2 show ?thesis by simp
  qed
qed

lemma floor_pow_bounds:
  assumes "1 \<le> (y::rat)"
  shows "2 powi ilog2 \<lfloor>y\<rfloor> \<le> y \<and> y < 2 powi (ilog2 \<lfloor>y\<rfloor> + 1)"
proof -
  have n1: "1 \<le> \<lfloor>y\<rfloor>" using assms by simp
  from ilog2_bounds [OF n1]
  have lo: "(2::rat) powi ilog2 \<lfloor>y\<rfloor> \<le> of_int \<lfloor>y\<rfloor>"
    and hi: "of_int \<lfloor>y\<rfloor> < (2::rat) powi (ilog2 \<lfloor>y\<rfloor> + 1)" by simp_all
  obtain m where m: "ilog2 \<lfloor>y\<rfloor> + 1 = int m"
    using ilog2_nonneg [of "\<lfloor>y\<rfloor>"] by (metis add_nonneg_nonneg nonneg_int_cases zero_le_one)
  have "\<lfloor>y\<rfloor> < 2 ^ m" using hi unfolding m
    by (metis of_int_less_iff of_int_numeral of_int_power power_int_of_nat)
  then have "\<lfloor>y\<rfloor> + 1 \<le> 2 ^ m" by simp
  then have "(of_int (\<lfloor>y\<rfloor> + 1) :: rat) \<le> of_int (2 ^ m)" by (simp only: of_int_le_iff)
  then have "(of_int \<lfloor>y\<rfloor> :: rat) + 1 \<le> 2 ^ m" by simp
  moreover have "y < of_int \<lfloor>y\<rfloor> + 1" by linarith
  ultimately have "y < 2 powi (ilog2 \<lfloor>y\<rfloor> + 1)" unfolding m by simp
  moreover have "2 powi ilog2 \<lfloor>y\<rfloor> \<le> y" using lo of_int_floor_le [of y] by linarith
  ultimately show ?thesis by simp
qed

lemma expo_bounds:
  assumes "0 < x"
  shows "2 powi expo x \<le> x \<and> x < 2 powi (expo x + 1)"
proof (cases "1 \<le> x")
  case True
  then show ?thesis using floor_pow_bounds [OF True] by (simp add: expo_def)
next
  case False
  define k where "k = ilog2 \<lfloor>1 / x\<rfloor>"
  have y1: "1 \<le> 1 / x" using False assms by simp
  from floor_pow_bounds [OF y1]
  have lo: "2 powi k \<le> 1 / x" and hi: "1 / x < 2 powi (k + 1)" by (simp_all add: k_def)
  have pk: "0 < (2::rat) powi k" and pk1: "0 < (2::rat) powi (k + 1)" by simp_all
  have lo': "x * 2 powi k \<le> 1" using lo assms pk by (simp add: field_simps)
  have hi': "1 < x * 2 powi (k + 1)" using hi assms pk1 by (simp add: field_simps)
  show ?thesis
  proof (cases "x * 2 powi k = 1")
    case True
    then have e: "expo x = - k" using False by (simp add: expo_def k_def)
    have x: "x = 2 powi (- k)" using True pk by (simp add: power_int_minus field_simps)
    have "(2::rat) powi (- k) < 2 powi (- k + 1)" by (rule power_int_strict_increasing) simp_all
    then show ?thesis unfolding e using x by simp
  next
    case ne: False
    then have e: "expo x = - k - 1" using False by (simp add: expo_def k_def)
    have "x * 2 powi k < 1" using lo' ne by simp
    then have a: "x < 2 powi (- k)" using pk by (simp add: power_int_minus field_simps)
    have "(2::rat) powi (- k - 1) * 2 powi (k + 1) = 1"
      by (simp flip: power_int_add)
    then have b: "2 powi (- k - 1) < x" using hi' pk1
      by (metis mult_less_cancel_right_pos)
    show ?thesis unfolding e using a b by simp
  qed
qed

lemma expo_unique:
  assumes "2 powi e \<le> x" "x < 2 powi (e + 1)"
  shows "expo x = e"
proof -
  have x0: "0 < x" using assms(1) zero_less_power_int [of "2::rat" e] by linarith
  from expo_bounds [OF x0] have lo: "2 powi expo x \<le> x" and hi: "x < 2 powi (expo x + 1)"
    by simp_all
  have "(2::rat) powi e < 2 powi (expo x + 1)" using assms(1) hi by linarith
  then have a: "e < expo x + 1"
    by (metis not_le power_int_increasing one_le_numeral)
  have "(2::rat) powi expo x < 2 powi (e + 1)" using assms(2) lo by linarith
  then have b: "expo x < e + 1"
    by (metis not_le power_int_increasing one_le_numeral)
  from a b show ?thesis by simp
qed

lemma expo_mono:
  assumes "0 < x" "x \<le> y"
  shows "expo x \<le> expo y"
proof -
  have y0: "0 < y" using assms by simp
  from expo_bounds [OF assms(1)] expo_bounds [OF y0]
  have "(2::rat) powi expo x < 2 powi (expo y + 1)" using assms(2) by linarith
  then have "expo x < expo y + 1"
    by (metis not_le power_int_increasing one_le_numeral)
  then show ?thesis by simp
qed

lemma expo_pow [simp]: "expo (2 powi k) = k"
  by (rule expo_unique) (simp_all add: power_int_strict_increasing)

subsection \<open>Rounding\<close>

lemma rne_of_int [simp]: "rne (of_int m) = m"
  by (simp add: rne_def)

lemma rne_le: "y \<le> of_int m \<Longrightarrow> rne y \<le> m"
proof -
  assume a: "y \<le> of_int m"
  show ?thesis
  proof (cases "y = of_int m")
    case True then show ?thesis by simp
  next
    case False
    with a have "y < of_int m" by simp
    then have "\<lfloor>y\<rfloor> < m" by (simp add: floor_less_iff)
    then have "\<lfloor>y\<rfloor> + 1 \<le> m" by simp
    moreover have "rne y \<le> \<lfloor>y\<rfloor> + 1" by (simp add: rne_def Let_def)
    ultimately show ?thesis by linarith
  qed
qed

lemma rne_ge: "of_int m \<le> y \<Longrightarrow> m \<le> rne y"
proof -
  assume a: "of_int m \<le> y"
  then have "m \<le> \<lfloor>y\<rfloor>" by (simp add: le_floor_iff)
  moreover have "\<lfloor>y\<rfloor> \<le> rne y" by (simp add: rne_def Let_def)
  ultimately show ?thesis by linarith
qed

lemma rne_mono: assumes "x \<le> y" shows "rne x \<le> rne y"
proof (cases "\<lfloor>x\<rfloor> = \<lfloor>y\<rfloor>")
  case True
  have "x - of_int \<lfloor>x\<rfloor> \<le> y - of_int \<lfloor>y\<rfloor>" using assms True by simp
  then show ?thesis unfolding rne_def Let_def True by auto
next
  case False
  have "\<lfloor>x\<rfloor> \<le> \<lfloor>y\<rfloor>" using assms by (rule floor_mono)
  with False have "\<lfloor>x\<rfloor> + 1 \<le> \<lfloor>y\<rfloor>" by simp
  moreover have "rne x \<le> \<lfloor>x\<rfloor> + 1" by (simp add: rne_def Let_def)
  moreover have "\<lfloor>y\<rfloor> \<le> rne y" by (simp add: rne_def Let_def)
  ultimately show ?thesis by linarith
qed

lemma ulp_pos [simp]: "0 < ulp x"
  by (simp add: ulp_def)

lemma ulp_nonneg [simp]: "0 \<le> ulp x"
  by (simp add: ulp_def)

lemma ulp_neq0 [simp]: "ulp x \<noteq> 0"
  by (simp add: ulp_def)

lemma pow2_add: "(2::rat) powi a * 2 powi b = 2 powi (a + b)"
  by (simp add: power_int_add)

lemma pow2_diff: "(2::rat) powi a / 2 powi b = 2 powi (a - b)"
  by (simp add: power_int_diff)

lemma pow2_lessD: "(2::rat) powi a < 2 powi b \<Longrightarrow> a < b"
  by (metis not_le power_int_increasing one_le_numeral)

lemma fl64_0 [simp]: "fl64 0 = 0"
  by (simp add: fl64_def)

lemma fl64_pos: "0 < x \<Longrightarrow> fl64 x = of_int (rne (x / ulp x)) * ulp x"
  by (simp add: fl64_def)

lemma fl64_nonneg: assumes "0 \<le> x" shows "0 \<le> fl64 x"
proof (cases "x = 0")
  case True then show ?thesis by simp
next
  case False
  with assms have x: "0 < x" by simp
  have "of_int 0 \<le> x / ulp x" using x by simp
  then have "0 \<le> rne (x / ulp x)" by (rule rne_ge)
  then show ?thesis by (simp add: fl64_pos [OF x])
qed

text \<open>A rounded number stays within the powers of two around it.\<close>

lemma fl64_upper:
  assumes "0 < x"
  shows "fl64 x \<le> 2 powi (max (expo x) (- 1022) + 1)"
proof -
  define e where "e = max (expo x) (- 1022)"
  have u: "ulp x = 2 powi (e - 52)" by (simp add: ulp_def e_def)
  have "x < 2 powi (expo x + 1)" using expo_bounds [OF assms] by simp
  also have "\<dots> \<le> 2 powi (e + 1)" by (rule power_int_increasing) (simp_all add: e_def)
  finally have "x / ulp x < 2 powi (e + 1) / 2 powi (e - 52)"
    unfolding u by (simp add: divide_strict_right_mono)
  also have "(2::rat) powi (e + 1) / 2 powi (e - 52) = 2 powi 53"
    by (simp flip: power_int_diff)
  finally have "x / ulp x \<le> of_int (2 ^ 53)" by simp
  then have "rne (x / ulp x) \<le> 2 ^ 53" by (rule rne_le)
  then have "(of_int (rne (x / ulp x)) :: rat) \<le> of_int (2 ^ 53)" by (simp only: of_int_le_iff)
  then have "of_int (rne (x / ulp x)) * ulp x \<le> of_int (2 ^ 53) * ulp x"
    by (rule mult_right_mono) simp
  also have "of_int (2 ^ 53) * ulp x = 2 powi 53 * 2 powi (e - 52)" unfolding u by simp
  also have "\<dots> = 2 powi (e + 1)" using pow2_add [of 53 "e - 52"] by (simp only: add.commute diff_add_cancel add_diff_eq) simp
  finally show ?thesis unfolding fl64_pos [OF assms] e_def .
qed

lemma fl64_lower:
  assumes "0 < x" "- 1022 \<le> expo x"
  shows "2 powi expo x \<le> fl64 x"
proof -
  have u: "ulp x = 2 powi (expo x - 52)" using assms(2) by (simp add: ulp_def max_def)
  have "(2::rat) powi expo x / 2 powi (expo x - 52) = 2 powi 52"
    by (simp flip: power_int_diff)
  moreover have "2 powi expo x / ulp x \<le> x / ulp x"
    using expo_bounds [OF assms(1)] by (simp add: divide_right_mono)
  ultimately have "of_int (2 ^ 52) \<le> x / ulp x" unfolding u by simp
  then have "2 ^ 52 \<le> rne (x / ulp x)" by (rule rne_ge)
  then have r: "(of_int (2 ^ 52) :: rat) \<le> of_int (rne (x / ulp x))" by (simp only: of_int_le_iff)
  have "(2::rat) powi expo x = 2 powi 52 * 2 powi (expo x - 52)"
    using pow2_add [of 52 "expo x - 52"] by (simp only: add_diff_eq add_diff_cancel_left')
  also have "\<dots> = of_int (2 ^ 52) * ulp x" unfolding u by simp
  also have "\<dots> \<le> of_int (rne (x / ulp x)) * ulp x"
    using r by (rule mult_right_mono) simp
  finally show ?thesis unfolding fl64_pos [OF assms(1)] .
qed

lemma fl64_mono_pos:
  assumes "0 < x" "x \<le> y"
  shows "fl64 x \<le> fl64 y"
proof -
  have y: "0 < y" using assms by simp
  define ex where "ex = max (expo x) (- 1022)"
  define ey where "ey = max (expo y) (- 1022)"
  have le: "ex \<le> ey" using expo_mono [OF assms] by (simp add: ex_def ey_def)
  show ?thesis
  proof (cases "ex = ey")
    case True
    then have u: "ulp x = ulp y" by (simp add: ulp_def ex_def ey_def)
    have "x / ulp y \<le> y / ulp y" using assms(2) by (simp add: divide_right_mono)
    then have "rne (x / ulp y) \<le> rne (y / ulp y)" by (rule rne_mono)
    then have "(of_int (rne (x / ulp y)) :: rat) \<le> of_int (rne (y / ulp y))" by (simp only: of_int_le_iff)
    then have "of_int (rne (x / ulp y)) * ulp y \<le> of_int (rne (y / ulp y)) * ulp y"
      by (rule mult_right_mono) simp
    then show ?thesis unfolding fl64_pos [OF assms(1)] fl64_pos [OF y] u .
  next
    case False
    with le have lt: "ex + 1 \<le> ey" by simp
    then have ey: "ey = expo y" and n: "- 1022 \<le> expo y" by (simp_all add: ex_def ey_def max_def split: if_splits)
    have "fl64 x \<le> 2 powi (ex + 1)" using fl64_upper [OF assms(1)] by (simp add: ex_def)
    also have "\<dots> \<le> 2 powi expo y" using lt unfolding ey by (intro power_int_increasing) simp_all
    also have "\<dots> \<le> fl64 y" by (rule fl64_lower [OF y n])
    finally show ?thesis .
  qed
qed

lemma fl64_mono:
  assumes "0 \<le> x" "x \<le> y"
  shows "fl64 x \<le> fl64 y"
proof (cases "x = 0")
  case True then show ?thesis using fl64_nonneg [of y] assms by simp
next
  case False
  then show ?thesis using assms fl64_mono_pos by simp
qed

text \<open>A number with at most 53 significant bits above the subnormal spacing is not changed.\<close>

lemma fl64_exact:
  assumes m: "0 < m" "m < 2 ^ 53" and j: "- 1074 \<le> j"
  shows "fl64 (of_int m * 2 powi j) = of_int m * 2 powi j"
proof -
  define x :: rat where "x = of_int m * 2 powi j"
  have x0: "0 < x" using m by (simp add: x_def)
  define e where "e = max (expo x) (- 1022)"
  have u: "ulp x = 2 powi (e - 52)" by (simp add: ulp_def e_def)
  have "(of_int m :: rat) < of_int (2 ^ 53)" using m(2) by (simp only: of_int_less_iff)
  then have "x < 2 powi 53 * 2 powi j" unfolding x_def by (simp add: mult_strict_right_mono)
  also have "\<dots> = 2 powi (53 + j)" by (rule pow2_add)
  finally have "2 powi expo x < (2::rat) powi (53 + j)" using expo_bounds [OF x0] by linarith
  then have "expo x < 53 + j" by (metis not_le power_int_increasing one_le_numeral)
  then have d: "0 \<le> j - (e - 52)" using j by (simp add: e_def)
  have "x / ulp x = of_int m * (2 powi j / 2 powi (e - 52))" unfolding u unfolding x_def by simp
  also have "(2::rat) powi j / 2 powi (e - 52) = 2 powi (j - (e - 52))" by (simp flip: power_int_diff)
  also have "\<dots> = 2 ^ nat (j - (e - 52))" using d by (simp add: power_int_nonneg_exp)
  also have "of_int m * (2::rat) ^ nat (j - (e - 52)) = of_int (m * 2 ^ nat (j - (e - 52)))" by simp
  finally have "of_int (rne (x / ulp x)) * ulp x = x / ulp x * ulp x" by (simp only: rne_of_int)
  also have "\<dots> = x" by simp
  finally show ?thesis unfolding fl64_pos [OF x0] x_def [symmetric] .
qed

lemma fl64_of_int:
  assumes "0 \<le> n" "n < 2 ^ 53"
  shows "fl64 (of_int n) = of_int n"
proof (cases "n = 0")
  case True then show ?thesis by simp
next
  case False
  with assms have "0 < n" by simp
  from fl64_exact [OF this assms(2), of 0] show ?thesis by simp
qed

lemma fl64_pow2: "- 1074 \<le> k \<Longrightarrow> fl64 (2 powi k) = 2 powi k"
  using fl64_exact [of 1 k] by simp

subsection \<open>Finite results\<close>

lemma round64_finite:
  assumes "0 \<le> x" "x \<le> 2 powi k" "- 1074 \<le> k" "k < 1024"
  shows "round64 x = Fin (fl64 x)" and "0 \<le> fl64 x" and "fl64 x \<le> 2 powi k"
proof -
  show n: "0 \<le> fl64 x" using assms(1) by (rule fl64_nonneg)
  have "fl64 x \<le> fl64 (2 powi k)" using assms(1,2) by (rule fl64_mono)
  then show b: "fl64 x \<le> 2 powi k" using fl64_pow2 [OF assms(3)] by simp
  show "round64 x = Fin (fl64 x)"
  proof (cases "fl64 x = 0")
    case True then show ?thesis by (simp add: round64_def)
  next
    case False
    with n have p: "0 < fl64 x" by simp
    have "expo (fl64 x) \<le> expo (2 powi k)" using p b by (rule expo_mono)
    then have "expo \<bar>fl64 x\<bar> < 1024" using assms(4) p by simp
    then show ?thesis using False by (simp add: round64_def Let_def)
  qed
qed

lemma round64_exact:
  assumes "0 \<le> n" "n < 2 ^ 53"
  shows "round64 (of_int n) = Fin (of_int n)"
proof -
  have "n \<le> 2 ^ 53" using assms(2) by simp
  then have "(of_int n :: rat) \<le> of_int (2 ^ 53)" by (simp only: of_int_le_iff)
  then have b: "(of_int n :: rat) \<le> 2 powi 53" by simp
  have a: "(0::rat) \<le> of_int n" using assms(1) by simp
  have "round64 (of_int n) = Fin (fl64 (of_int n))"
    using a b by (rule round64_finite(1)) simp_all
  then show ?thesis using fl64_of_int [OF assms] by simp
qed

lemma float64_of_uint64_finite:
  "\<exists>a. float64_of_uint64 w = Fin a \<and> a = fl64 (of_int (uint w)) \<and> 0 \<le> a \<and> a \<le> 2 powi 64"
proof -
  have "uint w \<le> 2 ^ 64" using uint_bounded [of w] by simp
  then have "(of_int (uint w) :: rat) \<le> of_int (2 ^ 64)" by (simp only: of_int_le_iff)
  then have b: "(of_int (uint w) :: rat) \<le> 2 powi 64" by simp
  have n: "(0::rat) \<le> of_int (uint w)" by (simp only: of_int_0_le_iff uint_ge_0)
  show ?thesis unfolding float64_of_uint64_def
    using round64_finite [OF n b] by simp
qed

lemma float64_of_uint64_small:
  "uint w < 2 ^ 53 \<Longrightarrow> float64_of_uint64 w = Fin (of_int (uint w))"
  unfolding float64_of_uint64_def by (rule round64_exact) simp_all

lemma float64_of_int_small:
  "0 \<le> i \<Longrightarrow> i < 2 ^ 53 \<Longrightarrow> float64_of_int i = Fin (of_int i)"
  unfolding float64_of_int_def by (rule round64_exact)

lemma Pow10_exact:
  assumes "0 \<le> p" "p \<le> 6"
  shows "Pow10 p = Fin (10 ^ nat p)"
proof -
  have "(10::int) ^ nat p \<le> 10 ^ 6" using assms by (intro power_increasing) simp_all
  then have "(10::int) ^ nat p < 2 ^ 53" by simp
  from round64_exact [OF _ this] have "round64 (of_int (10 ^ nat p)) = Fin (of_int (10 ^ nat p))" by simp
  then show ?thesis using assms by (simp add: Pow10_def power_int_nonneg_exp)
qed

lemma fdiv_finite:
  assumes "0 \<le> x" "x \<le> 2 powi k" "1 \<le> y" "- 1074 \<le> k" "k < 1024"
  shows "\<exists>r. fdiv (Fin x) (Fin y) = Fin r \<and> r = fl64 (x / y) \<and> 0 \<le> r \<and> r \<le> 2 powi k"
proof -
  have y0: "y \<noteq> 0" "0 < y" using assms(3) by simp_all
  have a: "0 \<le> x / y" using assms(1) y0 by simp
  have "x / y \<le> x / 1" using assms(1,3) by (intro divide_left_mono) simp_all
  then have b: "x / y \<le> 2 powi k" using assms(2) by simp
  from round64_finite [OF a b assms(4,5)] show ?thesis using y0 by simp
qed

lemma round_f64_finite:
  assumes p: "0 \<le> p" "p \<le> 6" and x: "0 \<le> x" "x \<le> 2 powi 64"
  shows "\<exists>r. round_f64 (Fin x) p = Fin r \<and> 0 \<le> r"
proof -
  define M :: rat where "M = 10 ^ nat p"
  have P: "Pow10 p = Fin M" unfolding M_def using p by (rule Pow10_exact)
  have M1: "1 \<le> M" unfolding M_def by simp
  have "(10::rat) ^ nat p \<le> 10 ^ 6" using p by (intro power_increasing) simp_all
  then have M2: "M \<le> 2 powi 20" unfolding M_def by simp
  have xm0: "0 \<le> x * M" using x(1) M1 by simp
  have "x * M \<le> 2 powi 64 * 2 powi 20" using x M1 M2 by (intro mult_mono) simp_all
  then have xm1: "x * M \<le> 2 powi 84" by simp
  define t where "t = fl64 (x * M)"
  from round64_finite [OF xm0 xm1]
  have t: "fmul (Fin x) (Fin M) = Fin t" "0 \<le> t" "t \<le> 2 powi 84" by (simp_all add: t_def)
  define n where "n = \<lfloor>t + 1 / 2\<rfloor>"
  have R: "Round (Fin t) = Fin (of_int n)" using t(2) by (simp add: n_def)
  have n0: "0 \<le> n" using t(2) by (simp add: n_def)
  have "(of_int n :: rat) \<le> t + 1 / 2" unfolding n_def by (rule of_int_floor_le)
  also have "\<dots> \<le> 2 powi 84 + 2 powi 84" using t(3) by simp
  also have "\<dots> = 2 powi 85" by simp
  finally have n1: "(of_int n :: rat) \<le> 2 powi 85" .
  have n0': "(0::rat) \<le> of_int n" using n0 by simp
  from fdiv_finite [OF n0' n1 M1]
  obtain r where "fdiv (Fin (of_int n)) (Fin M) = Fin r" "0 \<le> r" by auto
  then show ?thesis unfolding round_f64_def Let_def P t(1) R by blast
qed

lemma round64_pos_cases:
  assumes "0 < fl64 x"
  shows "round64 x = PInf \<or> round64 x = Fin (fl64 x)"
  using assms by (simp add: round64_def Let_def)

lemma float64_of_int_cases:
  assumes "1 \<le> i"
  shows "float64_of_int i = PInf \<or> (\<exists>r. float64_of_int i = Fin r \<and> 1 \<le> r)"
proof -
  have "fl64 1 \<le> fl64 (of_int i)" using assms by (intro fl64_mono) simp_all
  moreover have "fl64 1 = 1" using fl64_of_int [of 1] by simp
  ultimately have r: "1 \<le> fl64 (of_int i)" by simp
  then have "0 < fl64 (of_int i)" by simp
  from round64_pos_cases [OF this] show ?thesis using r by (auto simp: float64_of_int_def)
qed

lemma speed_finite:
  assumes "1 \<le> i"
  shows "\<exists>s. fdiv (float64_of_uint64 b) (float64_of_int i) = Fin s \<and> 0 \<le> s \<and> s \<le> 2 powi 64"
proof -
  obtain a where a: "float64_of_uint64 b = Fin a" "0 \<le> a" "a \<le> 2 powi 64"
    using float64_of_uint64_finite [of b] by blast
  from float64_of_int_cases [OF assms] show ?thesis
  proof
    assume "float64_of_int i = PInf"
    then show ?thesis using a by simp
  next
    assume "\<exists>r. float64_of_int i = Fin r \<and> 1 \<le> r"
    then obtain r where r: "float64_of_int i = Fin r" "1 \<le> r" by blast
    from fdiv_finite [OF a(2,3) r(2)] show ?thesis unfolding a(1) r(1) by auto
  qed
qed

lemma scaled_value_finite:
  assumes p: "0 \<le> p" "p \<le> 6" and s: "0 \<le> s" "s \<le> 2 powi 64" and T: "1 \<le> T"
  shows "\<exists>r. round_f64 (fdiv (Fin s) (Fin T)) p = Fin r \<and> 0 \<le> r"
proof -
  from fdiv_finite [OF s T] obtain x where "fdiv (Fin s) (Fin T) = Fin x" "0 \<le> x" "x \<le> 2 powi 64"
    by auto
  then show ?thesis using round_f64_finite [OF p, of x] by simp
qed

lemma calculateSpeed_value:
  assumes "1 \<le> i" "0 \<le> p" "p \<le> 6"
  shows "\<exists>r. Speed.Value (calculateSpeed b i p) = Fin r \<and> 0 \<le> r"
proof -
  obtain s where s: "fdiv (float64_of_uint64 b) (float64_of_int i) = Fin s" "0 \<le> s" "s \<le> 2 powi 64"
    using speed_finite [OF assms(1)] by blast
  note sv = scaled_value_finite [OF assms(2,3) s(2,3)]
  show ?thesis unfolding calculateSpeed_def Let_def s(1) KB_def MB_def GB_def
    using sv [of "1024 * 1024 * 1024"] sv [of "1024 * 1024"] sv [of 1024]
      round_f64_finite [OF assms(2,3) s(2,3)]
    by simp
qed

lemma calculateUsage_value:
  assumes "0 \<le> p" "p \<le> 6"
  shows "\<exists>r. Usage.Value (calculateUsage b p) = Fin r \<and> 0 \<le> r"
proof -
  obtain s where s: "float64_of_uint64 b = Fin s" "0 \<le> s" "s \<le> 2 powi 64"
    using float64_of_uint64_finite [of b] by blast
  note sv = scaled_value_finite [OF assms s(2,3)]
  show ?thesis unfolding calculateUsage_def Let_def s(1) KB_def MB_def GB_def
    using sv [of "1024 * 1024 * 1024"] sv [of "1024 * 1024"] sv [of 1024]
      round_f64_finite [OF assms s(2,3)]
    by simp
qed

lemma calculateSpeed_unit:
  "Speed.Unit (calculateSpeed b i p) \<in> {''B/s'', ''KB/s'', ''MB/s'', ''GB/s''}"
  by (simp add: calculateSpeed_def Let_def)

lemma calculateUsage_unit:
  "Usage.Unit (calculateUsage b p) \<in> {''B'', ''KB'', ''MB'', ''GB''}"
  by (simp add: calculateUsage_def Let_def)

subsection \<open>Unit selection\<close>

text \<open>Comparing a converted counter with a power of two is exact.\<close>

lemma fl64_ge_pow2_iff:
  assumes "0 \<le> n" "k \<le> 53"
  shows "2 ^ k \<le> fl64 (of_int n) \<longleftrightarrow> 2 ^ k \<le> n"
proof
  assume "(2::int) ^ k \<le> n"
  then have "(of_int (2 ^ k) :: rat) \<le> of_int n" by (simp only: of_int_le_iff)
  then have le: "(2::rat) powi int k \<le> of_int n" by simp
  have "fl64 (2 powi int k) \<le> fl64 (of_int n)" using _ le by (rule fl64_mono) simp
  then show "2 ^ k \<le> fl64 (of_int n)" using fl64_pow2 [of "int k"] by simp
next
  assume a: "2 ^ k \<le> fl64 (of_int n)"
  show "(2::int) ^ k \<le> n"
  proof (rule ccontr)
    assume "\<not> (2::int) ^ k \<le> n"
    then have lt: "n < 2 ^ k" by simp
    have "(2::int) ^ k \<le> 2 ^ 53" using assms(2) by (intro power_increasing) simp_all
    with lt have "n < 2 ^ 53" by linarith
    from fl64_of_int [OF assms(1) this] a have "(of_int (2 ^ k) :: rat) \<le> of_int n" by simp
    then have "2 ^ k \<le> n" by (simp only: of_int_le_iff)
    with lt show False by simp
  qed
qed

lemma fge_uint64_pow2:
  assumes "k \<le> 53"
  shows "fge (float64_of_uint64 b) (Fin (2 ^ k)) \<longleftrightarrow> 2 ^ k \<le> uint b"
proof -
  obtain a where a: "float64_of_uint64 b = Fin a" "a = fl64 (of_int (uint b))"
    using float64_of_uint64_finite [of b] by blast
  show ?thesis unfolding a(1) using fl64_ge_pow2_iff [OF uint_ge_0 assms, of b] a(2) by simp
qed

lemma calculateUsage_unit_eq:
  "Usage.Unit (calculateUsage b p) =
     (if 2 ^ 30 \<le> uint b then ''GB'' else if 2 ^ 20 \<le> uint b then ''MB''
      else if 2 ^ 10 \<le> uint b then ''KB'' else ''B'')"
proof -
  have g: "fge (float64_of_uint64 b) GB \<longleftrightarrow> 2 ^ 30 \<le> uint b"
    using fge_uint64_pow2 [of 30 b] by (simp add: GB_def)
  have m: "fge (float64_of_uint64 b) MB \<longleftrightarrow> 2 ^ 20 \<le> uint b"
    using fge_uint64_pow2 [of 20 b] by (simp add: MB_def)
  have k: "fge (float64_of_uint64 b) KB \<longleftrightarrow> 2 ^ 10 \<le> uint b"
    using fge_uint64_pow2 [of 10 b] by (simp add: KB_def)
  show ?thesis unfolding calculateUsage_def Let_def g m k by simp
qed

lemma floor_half [simp]: "\<lfloor>(1::rat) / 2\<rfloor> = 0"
  by (rule floor_unique) simp_all

lemma Round_of_int [simp]: "Round (Fin (of_int n)) = Fin (of_int n)"
proof -
  have "\<lfloor>(of_int n :: rat) + 1 / 2\<rfloor> = n" by (rule floor_unique) simp_all
  moreover have "\<lfloor>- (of_int n :: rat) + 1 / 2\<rfloor> = - n"
    using floor_unique [of "- n" "- (of_int n :: rat) + 1 / 2"] by simp
  ultimately show ?thesis by simp
qed

lemma round64_0 [simp]: "round64 0 = Fin 0"
  by (simp add: round64_def)

lemma round64_1 [simp]: "round64 1 = Fin 1"
  using round64_exact [of 1] by simp

lemma round_f64_1:
  assumes "0 \<le> p" "p \<le> 6"
  shows "round_f64 (Fin 1) p = Fin 1"
proof -
  define M :: int where "M = 10 ^ nat p"
  have P: "Pow10 p = Fin (of_int M)" unfolding M_def using Pow10_exact [OF assms] by simp
  have M0: "0 < M" unfolding M_def by simp
  have "(10::int) ^ nat p \<le> 10 ^ 6" using assms by (intro power_increasing) simp_all
  then have M1: "M < 2 ^ 53" unfolding M_def by simp
  have m: "fmul (Fin 1) (Fin (of_int M)) = Fin (of_int M)"
    using round64_exact [OF _ M1] M0 by simp
  have r: "Round (Fin (of_int M)) = Fin (of_int M)" by (rule Round_of_int)
  have d: "fdiv (Fin (of_int M)) (Fin (of_int M)) = Fin 1" using M0 by simp
  show ?thesis unfolding round_f64_def Let_def P m r d ..
qed

lemma round_f64_0:
  assumes "0 \<le> p" "p \<le> 6"
  shows "round_f64 (Fin 0) p = Fin 0"
proof -
  have P: "Pow10 p = Fin (10 ^ nat p)" using assms by (rule Pow10_exact)
  show ?thesis unfolding round_f64_def Let_def P by simp
qed

lemma le_div_iff_int:
  assumes "0 < (i::int)"
  shows "q \<le> n div i \<longleftrightarrow> q * i \<le> n"
proof
  assume "q \<le> n div i"
  then have "q * i \<le> n div i * i" using assms by (simp add: mult_right_mono)
  also have "n div i * i = n - n mod i" by (simp add: minus_mod_eq_div_mult)
  also have "\<dots> \<le> n" using assms by simp
  finally show "q * i \<le> n" .
next
  assume "q * i \<le> n"
  then have "q * i div i \<le> n div i" using assms by (rule zdiv_mono1)
  then show "q \<le> n div i" using assms by simp
qed

text \<open>
  On the intervals that \<^verbatim>\<open>main\<close> accepts, comparing the computed speed with a unit
  threshold is the same as comparing the whole quotient of the integers.
\<close>

lemma speed_ge_pow2_iff:
  assumes i: "1 \<le> i" "i \<le> 3600" and k: "k \<le> 30"
  shows "fge (fdiv (float64_of_uint64 b) (float64_of_int i)) (Fin (2 ^ k)) \<longleftrightarrow> 2 ^ k \<le> uint b div i"
proof -
  define n where "n = uint b"
  define T :: int where "T = 2 ^ k"
  have n0: "0 \<le> n" by (simp add: n_def)
  have T0: "0 < T" by (simp add: T_def)
  have "(2::int) ^ k \<le> 2 ^ 30" using k by (intro power_increasing) simp_all
  then have T1: "T \<le> 2 ^ 30" by (simp add: T_def)
  have i0: "0 < i" using i by simp
  have ri: "(0::rat) < of_int i" "(1::rat) \<le> of_int i" using i by simp_all
  have fi: "float64_of_int i = Fin (of_int i)" using i by (intro float64_of_int_small) simp_all
  obtain a where a: "float64_of_uint64 b = Fin a" "a = fl64 (of_int n)" "0 \<le> a" "a \<le> 2 powi 64"
    using float64_of_uint64_finite [of b] unfolding n_def by blast
  from fdiv_finite [OF a(3,4) ri(2)]
  have sp: "fdiv (Fin a) (Fin (of_int i)) = Fin (fl64 (a / of_int i))" by auto
  have "T * i \<le> 2 ^ 30 * 3600" using T1 T0 i by (intro mult_mono) simp_all
  then have Ti: "T * i < 2 ^ 53" by simp
  have Ti0: "0 \<le> T * i" using T0 i0 by simp
  have fT: "fl64 (of_int T) = of_int T" using T0 T1 by (intro fl64_of_int) simp_all
  have main: "of_int T \<le> fl64 (a / of_int i) \<longleftrightarrow> T * i \<le> n"
  proof
    assume le: "T * i \<le> n"
    then have "(of_int (T * i) :: rat) \<le> of_int n" by (simp only: of_int_le_iff)
    moreover have "(0::rat) \<le> of_int (T * i)" using Ti0 by (simp only: of_int_0_le_iff)
    ultimately have "fl64 (of_int (T * i)) \<le> fl64 (of_int n)" by (intro fl64_mono)
    then have "of_int (T * i) \<le> a" using fl64_of_int [OF Ti0 Ti] a(2) by simp
    then have "of_int T * of_int i \<le> a" by simp
    then have q: "of_int T \<le> a / of_int i" using ri(1) by (simp add: pos_le_divide_eq)
    have "(0::rat) \<le> of_int T" using T0 by simp
    then have "fl64 (of_int T) \<le> fl64 (a / of_int i)" using q by (rule fl64_mono)
    then show "of_int T \<le> fl64 (a / of_int i)" using fT by simp
  next
    assume ge: "of_int T \<le> fl64 (a / of_int i)"
    show "T * i \<le> n"
    proof (rule ccontr)
      assume "\<not> T * i \<le> n"
      then have lt: "n \<le> T * i - 1" by simp
      then have "n < 2 ^ 53" using Ti by simp
      then have an: "a = of_int n" using fl64_of_int [OF n0] a(2) by simp
      define G :: rat where "G = of_int (T * 4096 - 1) * 2 powi (- 12)"
      have "T * 4096 - 1 < 2 ^ 30 * 4096" using T1 by simp
      then have "T * 4096 - 1 < 2 ^ 53" by simp
      moreover have "0 < T * 4096 - 1" using T0 by simp
      ultimately have fG: "fl64 G = G" unfolding G_def by (intro fl64_exact) simp_all
      have G: "G = of_int T - 1 / 4096" by (simp add: G_def power_int_minus field_simps)
      have "(of_int n :: rat) \<le> of_int (T * i - 1)" using lt by (simp only: of_int_le_iff)
      then have "(of_int n :: rat) / of_int i \<le> of_int (T * i - 1) / of_int i"
        using ri(1) by (simp add: divide_right_mono)
      also have "(of_int (T * i - 1) :: rat) / of_int i = of_int T - 1 / of_int i"
        using ri(1) by (simp add: field_simps)
      also have "\<dots> \<le> of_int T - 1 / 4096"
      proof -
        have "(of_int i :: rat) \<le> 4096" using i by simp
        then have "1 / 4096 \<le> 1 / (of_int i :: rat)" using ri(1) by (simp add: field_simps)
        then show ?thesis by simp
      qed
      finally have q: "a / of_int i \<le> G" unfolding an G .
      have "0 \<le> a / of_int i" using a(3) ri(1) by simp
      then have "fl64 (a / of_int i) \<le> fl64 G" using q by (rule fl64_mono)
      then have "of_int T \<le> G" using ge fG by simp
      then show False unfolding G by simp
    qed
  qed
  have "fge (Fin (fl64 (a / of_int i))) (Fin (2 ^ k)) \<longleftrightarrow> of_int T \<le> fl64 (a / of_int i)"
    by (simp add: T_def)
  also have "\<dots> \<longleftrightarrow> T * i \<le> n" by (rule main)
  also have "\<dots> \<longleftrightarrow> T \<le> n div i" using le_div_iff_int [OF i0] by simp
  finally show ?thesis unfolding a(1) fi sp T_def n_def .
qed

lemma calculateSpeed_unit_eq:
  assumes "1 \<le> i" "i \<le> 3600"
  shows "Speed.Unit (calculateSpeed b i p) =
     (if 2 ^ 30 \<le> uint b div i then ''GB/s'' else if 2 ^ 20 \<le> uint b div i then ''MB/s''
      else if 2 ^ 10 \<le> uint b div i then ''KB/s'' else ''B/s'')"
proof -
  let ?s = "fdiv (float64_of_uint64 b) (float64_of_int i)"
  have g: "fge ?s GB \<longleftrightarrow> 2 ^ 30 \<le> uint b div i"
    using speed_ge_pow2_iff [OF assms, of 30 b] by (simp add: GB_def)
  have m: "fge ?s MB \<longleftrightarrow> 2 ^ 20 \<le> uint b div i"
    using speed_ge_pow2_iff [OF assms, of 20 b] by (simp add: MB_def)
  have k: "fge ?s KB \<longleftrightarrow> 2 ^ 10 \<le> uint b div i"
    using speed_ge_pow2_iff [OF assms, of 10 b] by (simp add: KB_def)
  show ?thesis unfolding calculateSpeed_def Let_def g m k by simp
qed

section \<open>Facts about the loop and the start-up\<close>

lemma tick_ok:
  assumes "getInterfaceIOCounters (interfaceName (nm st)) q = Inr c"
  shows "tick st q =
     st\<lparr>nm := (nm st)\<lparr>stats := make_stats st c\<rparr>,
        stdout := stdout st @ fst (print_stats (nm st) (make_stats st c)),
        stderr := stderr st @ snd (print_stats (nm st) (make_stats st c)),
        prevNetIO := c\<rparr>"
  using assms by (simp add: tick_def Let_def split: prod.split)

lemma tick_err:
  assumes "getInterfaceIOCounters (interfaceName (nm st)) q = Inl e"
  shows "tick st q = st\<lparr>stderr := stderr st @ [Log (''Error getting network stats: '' @ e)]\<rparr>"
  using assms by (simp add: tick_def)

lemma print_stats_finite:
  assumes "unsupported_value s = None"
  shows "print_stats m s = ([if format m = ''table'' then TableOut s (precision m) else JsonOut s], [])"
  using assms by (simp add: print_stats_def printTable_def printJSON_def)

lemma print_stats_nonneg:
  assumes "stats_nonneg s"
  shows "list_all item_nonneg (fst (print_stats m s))"
  using assms by (simp add: print_stats_def printTable_def printJSON_def split: option.split)

lemma unsupported_value_None:
  assumes "is_Fin (Speed.Value (SentSpeed s))" "is_Fin (Speed.Value (RecvSpeed s))"
    "is_Fin (Usage.Value (TotalSent s))" "is_Fin (Usage.Value (TotalRecv s))"
    "is_Fin (Usage.Value (TotalUsage s))"
  shows "unsupported_value s = None"
  using assms by (simp add: unsupported_value_def)

lemma is_Fin_I: "(\<exists>r. v = Fin r \<and> 0 \<le> r) \<Longrightarrow> is_Fin v"
  by auto

lemma ticker_duration_valid:
  assumes "1 \<le> i" "i \<le> 3600"
  shows "ticker_duration i = i * 1000000000"
proof -
  have "i * 1000000000 \<le> 3600 * 1000000000" using assms by simp
  then have b: "i * 1000000000 < 2 ^ 63" by simp
  have a: "- (2 ^ 63) \<le> i * 1000000000" using assms by simp
  have "(word_of_int i * 1000000000 :: 64 word) = word_of_int (i * 1000000000)" by simp
  then have "ticker_duration i = sint (word_of_int (i * 1000000000) :: 64 word)"
    by (simp only: ticker_duration_def)
  also have "\<dots> = signed_take_bit 63 (i * 1000000000)" unfolding sint_sbintrunc' by simp
  also have "\<dots> = i * 1000000000" using a b by (intro signed_take_bit_int_eq_self) simp_all
  finally show ?thesis .
qed

lemma tick_keeps [simp]:
  "totalSentStart (tick st q) = totalSentStart st"
  "totalRecvStart (tick st q) = totalRecvStart st"
  "interfaceName (nm (tick st q)) = interfaceName (nm st)"
  "refreshInterval (nm (tick st q)) = refreshInterval (nm st)"
  "precision (nm (tick st q)) = precision (nm st)"
  "format (nm (tick st q)) = format (nm st)"
  by (simp_all add: tick_def Let_def split: sum.split prod.split)

lemma ticks_keeps [simp]:
  "totalSentStart (ticks st qs) = totalSentStart st"
  "totalRecvStart (ticks st qs) = totalRecvStart st"
  "interfaceName (nm (ticks st qs)) = interfaceName (nm st)"
  "refreshInterval (nm (ticks st qs)) = refreshInterval (nm st)"
  "precision (nm (ticks st qs)) = precision (nm st)"
  "format (nm (ticks st qs)) = format (nm st)"
  unfolding ticks_def by (induction qs arbitrary: st; simp)+

lemma loop_ticks: "loop st (map Tick qs) = (ticks st qs, False)"
  unfolding ticks_def by (induction qs arbitrary: st) simp_all

lemma nonneg_Fin: "(\<exists>r. v = Fin r \<and> 0 \<le> r) \<Longrightarrow> nonneg v"
  by auto

lemma make_stats_nonneg:
  assumes "1 \<le> refreshInterval (nm st)" "0 \<le> precision (nm st)" "precision (nm st) \<le> 6"
  shows "stats_nonneg (make_stats st c)"
  unfolding stats_nonneg_def make_stats_def
  using calculateSpeed_value [OF assms] calculateUsage_value [OF assms(2,3)]
  by (simp add: nonneg_Fin)

lemma make_stats_finite:
  assumes "1 \<le> refreshInterval (nm st)" "0 \<le> precision (nm st)" "precision (nm st) \<le> 6"
  shows "unsupported_value (make_stats st c) = None"
  unfolding make_stats_def
  using calculateSpeed_value [OF assms] calculateUsage_value [OF assms(2,3)]
  by (intro unsupported_value_None) (simp_all add: is_Fin_I)

lemma tick_nonneg:
  assumes "1 \<le> refreshInterval (nm st)" "0 \<le> precision (nm st)" "precision (nm st) \<le> 6"
    and "list_all item_nonneg (stdout st)"
  shows "list_all item_nonneg (stdout (tick st q))"
proof (cases "getInterfaceIOCounters (interfaceName (nm st)) q")
  case (Inl e)
  then show ?thesis using assms(4) by (simp add: tick_err)
next
  case (Inr c)
  have "stats_nonneg (make_stats st c)" by (rule make_stats_nonneg [OF assms(1-3)])
  from print_stats_nonneg [OF this, of "nm st"]
  show ?thesis unfolding tick_ok [OF Inr] using assms(4) by simp
qed

lemma loop_nonneg:
  assumes "1 \<le> refreshInterval (nm st)" "0 \<le> precision (nm st)" "precision (nm st) \<le> 6"
    and "list_all item_nonneg (stdout st)"
  shows "list_all item_nonneg (stdout (fst (loop st es)))"
  using assms
proof (induction st es rule: loop.induct)
  case (3 st q es)
  show ?case using "3.IH" "3.prems" tick_nonneg [OF "3.prems"] by simp
qed simp_all

lemma main_bad:
  assumes "\<not> flags_ok fl"
  shows "exit_status (main fl q0 es) = Some 1"
    and "out (main fl q0 es) = (if flag_i fl = [] then [TextOut [CHR 0x0A]] else [])"
    and "err (main fl q0 es) \<noteq> []"
proof -
  consider (i) "flag_i fl = []"
    | (p) "flag_i fl \<noteq> []" "flag_p fl < 0 \<or> 6 < flag_p fl"
    | (t) "flag_i fl \<noteq> []" "\<not> (flag_p fl < 0 \<or> 6 < flag_p fl)" "flag_t fl \<le> 0 \<or> 3600 < flag_t fl"
    | (f) "flag_i fl \<noteq> []" "\<not> (flag_p fl < 0 \<or> 6 < flag_p fl)" "\<not> (flag_t fl \<le> 0 \<or> 3600 < flag_t fl)"
          "flag_f fl \<noteq> ''json'' \<and> flag_f fl \<noteq> ''table''"
    using assms unfolding flags_ok_def by fastforce
  then have "exit_status (main fl q0 es) = Some 1 \<and>
      out (main fl q0 es) = (if flag_i fl = [] then [TextOut [CHR 0x0A]] else []) \<and>
      err (main fl q0 es) \<noteq> []"
  proof cases
    case i then show ?thesis unfolding main_def Fatal_def by simp
  next
    case p then show ?thesis unfolding main_def Fatal_def by simp
  next
    case t then show ?thesis unfolding main_def Fatal_def by simp
  next
    case f then show ?thesis unfolding main_def Fatal_def by simp
  qed
  then show "exit_status (main fl q0 es) = Some 1"
    and "out (main fl q0 es) = (if flag_i fl = [] then [TextOut [CHR 0x0A]] else [])"
    and "err (main fl q0 es) \<noteq> []" by blast+
qed

lemma main_good:
  assumes "flags_ok fl"
  shows "main fl q0 es =
     (case collectStats (NewNetworkMonitor (flag_i fl) (flag_t fl) (flag_p fl) (flag_f fl)) q0 es of
        Failed e \<Rightarrow> Fatal [] [] (''Network monitoring error: '' @ e)
      | Panicked e \<Rightarrow> \<lparr>exit_status = Some 2, out = [], err = [Log (''panic: '' @ e)]\<rparr>
      | Ran st returned \<Rightarrow>
          \<lparr>exit_status = (if returned then Some 0 else None), out = stdout st, err = stderr st\<rparr>)"
proof -
  have "flag_i fl \<noteq> []" "\<not> (flag_p fl < 0 \<or> 6 < flag_p fl)" "\<not> (flag_t fl \<le> 0 \<or> 3600 < flag_t fl)"
    "\<not> (flag_f fl \<noteq> ''json'' \<and> flag_f fl \<noteq> ''table'')"
    using assms unfolding flags_ok_def by auto
  then show ?thesis unfolding main_def by (simp only: if_False)
qed

lemma main_nonneg: "list_all item_nonneg (out (main fl q0 es))"
proof (cases "flags_ok fl")
  case False
  from main_bad(2) [OF this, of q0 es] show ?thesis by simp
next
  case True
  let ?m = "NewNetworkMonitor (flag_i fl) (flag_t fl) (flag_p fl) (flag_f fl)"
  show ?thesis
  proof (cases "getInterfaceIOCounters (interfaceName ?m) q0")
    case (Inl e)
    then show ?thesis unfolding main_good [OF True] by (simp add: collectStats_def Fatal_def)
  next
    case (Inr io)
    have "list_all item_nonneg (stdout (fst (loop (init_state ?m io) es)))"
      using True by (intro loop_nonneg) (simp_all add: init_state_def NewNetworkMonitor_def flags_ok_def)
    then show ?thesis unfolding main_good [OF True]
      by (cases "loop (init_state ?m io) es") (simp add: collectStats_def Inr)
  qed
qed

text \<open>With flags that pass the checks, the ticker is created and the loop is entered.\<close>

lemma collectStats_valid:
  assumes "1 \<le> refreshInterval m" "refreshInterval m \<le> 3600"
    and "getInterfaceIOCounters (interfaceName m) q0 = Inr io"
  shows "collectStats m q0 es =
     Ran (fst (loop (init_state m io) es)) (snd (loop (init_state m io) es))"
  using assms ticker_duration_valid [OF assms(1,2)]
  by (simp add: collectStats_def split: prod.split)

lemma main_never_panics: "exit_status (main fl q0 es) \<noteq> Some 2"
proof (cases "flags_ok fl")
  case False
  from main_bad(1) [OF this, of q0 es] show ?thesis by simp
next
  case True
  let ?m = "NewNetworkMonitor (flag_i fl) (flag_t fl) (flag_p fl) (flag_f fl)"
  have i: "1 \<le> refreshInterval ?m" "refreshInterval ?m \<le> 3600"
    using True by (simp_all add: flags_ok_def NewNetworkMonitor_def)
  show ?thesis
  proof (cases "getInterfaceIOCounters (interfaceName ?m) q0")
    case (Inl e)
    then show ?thesis unfolding main_good [OF True] by (simp add: collectStats_def Fatal_def)
  next
    case (Inr io)
    show ?thesis unfolding main_good [OF True] collectStats_valid [OF i Inr] by simp
  qed
qed

lemma uint_sub_wrap:
  fixes a b :: "64 word"
  assumes "a < b"
  shows "uint (a - b) = 2 ^ 64 - (uint b - uint a)"
proof -
  have lt: "uint a < uint b" using assms by (simp add: word_less_def)
  have b: "uint b < 2 ^ 64" using uint_bounded [of b] by simp
  have "uint (a - b) = (uint a - uint b) mod 2 ^ 64" by (simp add: uint_word_ariths)
  also have "\<dots> = (uint a - uint b + 2 ^ 64) mod 2 ^ 64" by simp
  also have "\<dots> = uint a - uint b + 2 ^ 64"
    using lt b uint_ge_0 [of a] by (intro mod_pos_pos_trivial) linarith+
  finally show ?thesis by simp
qed

lemma calculateUsage_threshold:
  assumes "0 \<le> p" "p \<le> 6"
  shows "calculateUsage 1024 p = \<lparr>Usage.Value = Fin 1, Unit = ''KB''\<rparr>"
    and "calculateUsage 1048576 p = \<lparr>Usage.Value = Fin 1, Unit = ''MB''\<rparr>"
    and "calculateUsage 1073741824 p = \<lparr>Usage.Value = Fin 1, Unit = ''GB''\<rparr>"
proof -
  have a: "float64_of_uint64 1024 = Fin 1024" "float64_of_uint64 1048576 = Fin 1048576"
    "float64_of_uint64 1073741824 = Fin 1073741824"
    using float64_of_uint64_small [of 1024] float64_of_uint64_small [of 1048576]
      float64_of_uint64_small [of 1073741824] by simp_all
  show "calculateUsage 1024 p = \<lparr>Usage.Value = Fin 1, Unit = ''KB''\<rparr>"
    unfolding calculateUsage_def Let_def a KB_def MB_def GB_def
    by (simp add: round_f64_1 [OF assms])
  show "calculateUsage 1048576 p = \<lparr>Usage.Value = Fin 1, Unit = ''MB''\<rparr>"
    unfolding calculateUsage_def Let_def a KB_def MB_def GB_def
    by (simp add: round_f64_1 [OF assms])
  show "calculateUsage 1073741824 p = \<lparr>Usage.Value = Fin 1, Unit = ''GB''\<rparr>"
    unfolding calculateUsage_def Let_def a KB_def MB_def GB_def
    by (simp add: round_f64_1 [OF assms])
qed

lemma speed_at_multiple:
  assumes i: "1 \<le> i" "i \<le> 3600" and T: "0 < T" "T \<le> 2 ^ 30" and b: "uint b = T * i"
  shows "fdiv (float64_of_uint64 b) (float64_of_int i) = Fin (of_int T)"
proof -
  have "T * i \<le> 2 ^ 30 * 3600" using T i by (intro mult_mono) simp_all
  then have "uint b < 2 ^ 53" unfolding b by simp
  then have fb: "float64_of_uint64 b = Fin (of_int (T * i))"
    using float64_of_uint64_small [of b] b by simp
  have fi: "float64_of_int i = Fin (of_int i)" using i by (intro float64_of_int_small) simp_all
  have i0: "(of_int i :: rat) \<noteq> 0" using i by simp
  have q: "(of_int (T * i) :: rat) / of_int i = of_int T" using i0 by simp
  have "round64 (of_int T) = Fin (of_int T)" using T by (intro round64_exact) simp_all
  then show ?thesis unfolding fb fi using i0 q by simp
qed

lemma calculateSpeed_threshold:
  assumes "0 \<le> p" "p \<le> 6" "1 \<le> i" "i \<le> 3600"
  shows "uint b = 1024 * i \<Longrightarrow> calculateSpeed b i p = \<lparr>Speed.Value = Fin 1, Unit = ''KB/s''\<rparr>"
    and "uint b = 1048576 * i \<Longrightarrow> calculateSpeed b i p = \<lparr>Speed.Value = Fin 1, Unit = ''MB/s''\<rparr>"
    and "uint b = 1073741824 * i \<Longrightarrow> calculateSpeed b i p = \<lparr>Speed.Value = Fin 1, Unit = ''GB/s''\<rparr>"
proof -
  note r = round_f64_1 [OF assms(1,2)]
  { assume "uint b = 1024 * i"
    from speed_at_multiple [OF assms(3,4) _ _ this]
    have "fdiv (float64_of_uint64 b) (float64_of_int i) = Fin 1024" by simp
    then show "calculateSpeed b i p = \<lparr>Speed.Value = Fin 1, Unit = ''KB/s''\<rparr>"
      unfolding calculateSpeed_def Let_def KB_def MB_def GB_def by (simp add: r) }
  { assume "uint b = 1048576 * i"
    from speed_at_multiple [OF assms(3,4) _ _ this]
    have "fdiv (float64_of_uint64 b) (float64_of_int i) = Fin 1048576" by simp
    then show "calculateSpeed b i p = \<lparr>Speed.Value = Fin 1, Unit = ''MB/s''\<rparr>"
      unfolding calculateSpeed_def Let_def KB_def MB_def GB_def by (simp add: r) }
  { assume "uint b = 1073741824 * i"
    from speed_at_multiple [OF assms(3,4) _ _ this]
    have "fdiv (float64_of_uint64 b) (float64_of_int i) = Fin 1073741824" by simp
    then show "calculateSpeed b i p = \<lparr>Speed.Value = Fin 1, Unit = ''GB/s''\<rparr>"
      unfolding calculateSpeed_def Let_def KB_def MB_def GB_def by (simp add: r) }
qed

lemma tick_stats:
  assumes "getInterfaceIOCounters (interfaceName (nm st)) q = Inr cur"
  shows "stats (nm (tick st q)) = make_stats st cur"
    and "prevNetIO (tick st q) = cur"
    and "stderr (tick st q) = stderr st @ snd (print_stats (nm st) (make_stats st cur))"
    and "stdout (tick st q) = stdout st @ fst (print_stats (nm st) (make_stats st cur))"
  unfolding tick_ok [OF assms] by simp_all

lemma make_stats_fields [simp]:
  "Interface (make_stats st c) = interfaceName (nm st)"
  "SentSpeed (make_stats st c) = calculateSpeed (sentBytes st c) (refreshInterval (nm st)) (precision (nm st))"
  "RecvSpeed (make_stats st c) = calculateSpeed (recvBytes st c) (refreshInterval (nm st)) (precision (nm st))"
  "TotalSent (make_stats st c) = calculateUsage (totalSent st c) (precision (nm st))"
  "TotalRecv (make_stats st c) = calculateUsage (totalRecv st c) (precision (nm st))"
  "TotalUsage (make_stats st c) = calculateUsage (totalSent st c + totalRecv st c) (precision (nm st))"
  by (simp_all add: make_stats_def)

lemma uint_truncated_rate:
  assumes "1 \<le> i"
  shows "uint (truncated_rate b i) = uint b div i"
proof -
  have "0 \<le> uint b div i" using assms by (simp add: pos_imp_zdiv_nonneg_iff)
  moreover have "uint b div i \<le> uint b div 1" using assms by (intro zdiv_mono2) simp_all
  moreover have "uint b < 2 ^ 64" using uint_bounded [of b] by simp
  ultimately have "0 \<le> uint b div i" "uint b div i < 2 ^ 64" by simp_all
  then show ?thesis unfolding truncated_rate_def by (simp add: uint_word_of_int take_bit_int_eq_self)
qed

lemma word_sub_mono_left:
  fixes s a b :: "64 word"
  assumes "s \<le> a" "a \<le> b"
  shows "a - s \<le> b - s"
proof -
  have 1: "uint s \<le> uint a" "uint a \<le> uint b" using assms by (simp_all add: word_le_def)
  have "uint (a - s) = uint a - uint s" using 1 by (simp add: uint_sub_if')
  moreover have "uint (b - s) = uint b - uint s" using 1 by (simp add: uint_sub_if')
  ultimately show ?thesis using 1 by (simp add: word_le_def)
qed

lemma ticks_snoc: "ticks st (qs @ [q]) = tick (ticks st qs) q"
  by (simp add: ticks_def)

lemma ticks_take_Suc:
  "n < length qs \<Longrightarrow> ticks st (take (Suc n) qs) = tick (ticks st (take n qs)) (qs ! n)"
  by (simp add: take_Suc_conv_app_nth ticks_snoc)

lemma calculateSpeed_zero:
  assumes "1 \<le> i" "0 \<le> p" "p \<le> 6"
  shows "calculateSpeed 0 i p = \<lparr>Speed.Value = Fin 0, Unit = ''B/s''\<rparr>"
proof -
  have z: "float64_of_uint64 0 = Fin 0" by (simp add: float64_of_uint64_def)
  have "fdiv (Fin 0) (float64_of_int i) = Fin 0"
    using float64_of_int_cases [OF assms(1)] by auto
  then show ?thesis unfolding calculateSpeed_def Let_def z KB_def MB_def GB_def
    by (simp add: round_f64_0 [OF assms(2,3)])
qed

lemma main_bad_indep:
  assumes "\<not> flags_ok fl"
  shows "main fl q0 es = main fl q0' es'"
proof -
  consider (i) "flag_i fl = []"
    | (p) "flag_i fl \<noteq> []" "flag_p fl < 0 \<or> 6 < flag_p fl"
    | (t) "flag_i fl \<noteq> []" "\<not> (flag_p fl < 0 \<or> 6 < flag_p fl)" "flag_t fl \<le> 0 \<or> 3600 < flag_t fl"
    | (f) "flag_i fl \<noteq> []" "\<not> (flag_p fl < 0 \<or> 6 < flag_p fl)" "\<not> (flag_t fl \<le> 0 \<or> 3600 < flag_t fl)"
          "flag_f fl \<noteq> ''json'' \<and> flag_f fl \<noteq> ''table''"
    using assms unfolding flags_ok_def by fastforce
  then show ?thesis
  proof cases
    case i then show ?thesis unfolding main_def by (simp only: if_True simp_thms)
  next
    case p then show ?thesis unfolding main_def by (simp only: if_True if_False simp_thms)
  next
    case t then show ?thesis unfolding main_def by (simp only: if_True if_False simp_thms)
  next
    case f then show ?thesis unfolding main_def by (simp only: if_True if_False simp_thms)
  qed
qed

lemma uint_sub_no_wrap:
  fixes s a :: "64 word"
  assumes "s \<le> a"
  shows "uint (a - s) = uint a - uint s"
  using assms by (simp add: word_le_def uint_sub_if')

lemma uint_add_exact_iff:
  fixes a b :: "64 word"
  shows "uint (a + b) = uint a + uint b \<longleftrightarrow> uint a + uint b < 2 ^ 64"
proof
  assume "uint (a + b) = uint a + uint b"
  then show "uint a + uint b < 2 ^ 64" using uint_bounded [of "a + b"] by simp
next
  assume "uint a + uint b < 2 ^ 64"
  then have "(uint a + uint b) mod 2 ^ 64 = uint a + uint b"
    using uint_ge_0 [of a] uint_ge_0 [of b] by (intro mod_pos_pos_trivial) linarith+
  then show "uint (a + b) = uint a + uint b" by (simp add: uint_word_ariths)
qed

section \<open>Properties\<close>

text \<open>
  C1, as stated, fails. The claim is that a counter that goes backward gives a negative
  delta and a negative displayed value. With a previous reading of 100 bytes sent and a
  current one of 50, the \<^verbatim>\<open>uint64\<close> difference wraps to \<open>2^64 - 50\<close> and the tick
  reports 17179869184 GB/s, which is not negative.
\<close>

theorem C1_counterexample:
  "BytesSent \<lparr>Name = ''eth0'', BytesSent = 50, BytesRecv = 300\<rparr>
     < BytesSent (prevNetIO (init_state (NewNetworkMonitor ''eth0'' 1 2 ''json'')
         \<lparr>Name = ''eth0'', BytesSent = 100, BytesRecv = 200\<rparr>)) \<and>
   SentSpeed (stats (nm (tick
       (init_state (NewNetworkMonitor ''eth0'' 1 2 ''json'')
          \<lparr>Name = ''eth0'', BytesSent = 100, BytesRecv = 200\<rparr>)
       (Inr [\<lparr>Name = ''eth0'', BytesSent = 50, BytesRecv = 300\<rparr>]))))
     = \<lparr>Speed.Value = Fin 17179869184, Unit = ''GB/s''\<rparr> \<and>
   \<not> negative (Fin 17179869184)"
  by code_simp

text \<open>
  C1, amended. When the current reading is below the previous one, the \<^verbatim>\<open>uint64\<close>
  subtraction wraps: the delta is \<open>2^64 - (previous - current)\<close>. That delta reaches
  \<^verbatim>\<open>calculateSpeed\<close> and the renderer as it is: it is not clamped, nothing is logged,
  the tick renders as usual, and (for an interval of at least 1 and a precision from 0 to
  6) the displayed value is a finite number that is not negative.
\<close>

theorem C1_rollback_wraps:
  assumes "getInterfaceIOCounters (interfaceName (nm st)) q = Inr cur"
    and "1 \<le> refreshInterval (nm st)" and "0 \<le> precision (nm st)" and "precision (nm st) \<le> 6"
  shows "(BytesSent cur < BytesSent (prevNetIO st) \<longrightarrow>
            uint (sentBytes st cur) = 2 ^ 64 - (uint (BytesSent (prevNetIO st)) - uint (BytesSent cur))) \<and>
         (BytesRecv cur < BytesRecv (prevNetIO st) \<longrightarrow>
            uint (recvBytes st cur) = 2 ^ 64 - (uint (BytesRecv (prevNetIO st)) - uint (BytesRecv cur))) \<and>
         SentSpeed (stats (nm (tick st q))) =
            calculateSpeed (sentBytes st cur) (refreshInterval (nm st)) (precision (nm st)) \<and>
         RecvSpeed (stats (nm (tick st q))) =
            calculateSpeed (recvBytes st cur) (refreshInterval (nm st)) (precision (nm st)) \<and>
         (\<exists>r. Speed.Value (SentSpeed (stats (nm (tick st q)))) = Fin r \<and> 0 \<le> r) \<and>
         (\<exists>r. Speed.Value (RecvSpeed (stats (nm (tick st q)))) = Fin r \<and> 0 \<le> r) \<and>
         stderr (tick st q) = stderr st \<and>
         stdout (tick st q) = stdout st @
           [if format (nm st) = ''table'' then TableOut (stats (nm (tick st q))) (precision (nm st))
            else JsonOut (stats (nm (tick st q)))]"
proof -
  have fin: "unsupported_value (make_stats st cur) = None"
    by (rule make_stats_finite [OF assms(2-4)])
  note f = print_stats_finite [OF fin, of "nm st"]
  have s: "stats (nm (tick st q)) = make_stats st cur"
    and e: "stderr (tick st q) = stderr st"
    and o: "stdout (tick st q) = stdout st @
           [if format (nm st) = ''table'' then TableOut (make_stats st cur) (precision (nm st))
            else JsonOut (make_stats st cur)]"
    unfolding tick_ok [OF assms(1)] f by simp_all
  have ss: "SentSpeed (make_stats st cur) =
      calculateSpeed (sentBytes st cur) (refreshInterval (nm st)) (precision (nm st))"
    and rs: "RecvSpeed (make_stats st cur) =
      calculateSpeed (recvBytes st cur) (refreshInterval (nm st)) (precision (nm st))"
    by (simp_all add: make_stats_def)
  show ?thesis unfolding s e o ss rs
    using calculateSpeed_value [OF assms(2-4)] uint_sub_wrap
    by (simp add: sentBytes_def recvBytes_def)
qed

text \<open>The amended C1 at the readings 100 then 50.\<close>

theorem C1_witness:
  "getInterfaceIOCounters ''eth0'' (Inr [\<lparr>Name = ''eth0'', BytesSent = 50, BytesRecv = 300\<rparr>])
     = Inr \<lparr>Name = ''eth0'', BytesSent = 50, BytesRecv = 300\<rparr> \<and>
   uint (sentBytes
      (init_state (NewNetworkMonitor ''eth0'' 1 2 ''json'')
          \<lparr>Name = ''eth0'', BytesSent = 100, BytesRecv = 200\<rparr>)
      \<lparr>Name = ''eth0'', BytesSent = 50, BytesRecv = 300\<rparr>) = 2 ^ 64 - 50 \<and>
   (\<exists>r. Speed.Value (SentSpeed (stats (nm (tick
      (init_state (NewNetworkMonitor ''eth0'' 1 2 ''json'')
          \<lparr>Name = ''eth0'', BytesSent = 100, BytesRecv = 200\<rparr>)
      (Inr [\<lparr>Name = ''eth0'', BytesSent = 50, BytesRecv = 300\<rparr>]))))) = Fin r \<and> 0 \<le> r)"
proof -
  let ?st = "init_state (NewNetworkMonitor ''eth0'' 1 2 ''json'')
          \<lparr>Name = ''eth0'', BytesSent = 100, BytesRecv = 200\<rparr>"
  let ?cur = "\<lparr>Name = ''eth0'', BytesSent = 50, BytesRecv = 300\<rparr>"
  have q: "getInterfaceIOCounters (interfaceName (nm ?st)) (Inr [?cur]) = Inr ?cur"
    by (simp add: getInterfaceIOCounters_def init_state_def NewNetworkMonitor_def)
  have h: "1 \<le> refreshInterval (nm ?st)" "0 \<le> precision (nm ?st)" "precision (nm ?st) \<le> 6"
    by (simp_all add: init_state_def NewNetworkMonitor_def)
  have r: "BytesSent ?cur < BytesSent (prevNetIO ?st)" by (simp add: init_state_def)
  have n: "interfaceName (nm ?st) = ''eth0''" by (simp add: init_state_def NewNetworkMonitor_def)
  have p: "uint (BytesSent (prevNetIO ?st)) - uint (BytesSent ?cur) = 50" by (simp add: init_state_def)
  from C1_rollback_wraps [OF q h] r show ?thesis unfolding n p using q unfolding n by blast
qed

text \<open>
  C2. A quantity that is exactly a threshold takes the higher unit with the value 1:
  \<^verbatim>\<open>calculateUsage\<close> of 1024, of \<open>1024^2\<close> and of \<open>1024^3\<close> bytes is 1 KB, 1 MB and
  1 GB (so \<^verbatim>\<open>calculateUsage(1048576, 2)\<close> is 1.00 MB and not 1024.00 KB), and
  \<^verbatim>\<open>calculateSpeed\<close> of a threshold's multiple of the interval is 1 KB/s, 1 MB/s and
  1 GB/s. In general the unit is the largest one whose threshold is less than or equal
  to the quantity. Precisions are those from 0 to 6 and intervals those from 1 to 3600,
  the ranges that \<^verbatim>\<open>main\<close> accepts.
\<close>

theorem C2_threshold_selects_higher_unit:
  assumes "0 \<le> p" and "p \<le> 6" and "1 \<le> i" and "i \<le> 3600"
  shows "calculateUsage 1024 p = \<lparr>Usage.Value = Fin 1, Unit = ''KB''\<rparr> \<and>
         calculateUsage 1048576 p = \<lparr>Usage.Value = Fin 1, Unit = ''MB''\<rparr> \<and>
         calculateUsage 1073741824 p = \<lparr>Usage.Value = Fin 1, Unit = ''GB''\<rparr> \<and>
         (uint b = 1024 * i \<longrightarrow> calculateSpeed b i p = \<lparr>Speed.Value = Fin 1, Unit = ''KB/s''\<rparr>) \<and>
         (uint b = 1048576 * i \<longrightarrow> calculateSpeed b i p = \<lparr>Speed.Value = Fin 1, Unit = ''MB/s''\<rparr>) \<and>
         (uint b = 1073741824 * i \<longrightarrow> calculateSpeed b i p = \<lparr>Speed.Value = Fin 1, Unit = ''GB/s''\<rparr>) \<and>
         Usage.Unit (calculateUsage b p) =
           (if 2 ^ 30 \<le> uint b then ''GB'' else if 2 ^ 20 \<le> uint b then ''MB''
            else if 2 ^ 10 \<le> uint b then ''KB'' else ''B'') \<and>
         Speed.Unit (calculateSpeed b i p) =
           (if 2 ^ 30 \<le> uint b div i then ''GB/s'' else if 2 ^ 20 \<le> uint b div i then ''MB/s''
            else if 2 ^ 10 \<le> uint b div i then ''KB/s'' else ''B/s'')"
  using calculateUsage_threshold [OF assms(1,2)] calculateSpeed_threshold [OF assms, of b]
    calculateUsage_unit_eq [of b p] calculateSpeed_unit_eq [OF assms(3,4), of b p]
  by blast

text \<open>C2 at one mebibyte, and at two mebibytes over two seconds.\<close>

theorem C2_witness:
  "(0::int) \<le> 2 \<and> (2::int) \<le> 6 \<and> (1::int) \<le> 2 \<and> (2::int) \<le> 3600 \<and>
   calculateUsage 1048576 2 = \<lparr>Usage.Value = Fin 1, Unit = ''MB''\<rparr> \<and>
   uint (2097152 :: 64 word) = 1048576 * 2 \<and>
   calculateSpeed 2097152 2 2 = \<lparr>Speed.Value = Fin 1, Unit = ''MB/s''\<rparr>"
proof -
  have h: "(0::int) \<le> 2" "(2::int) \<le> 6" "(1::int) \<le> 2" "(2::int) \<le> 3600" by simp_all
  have u: "uint (2097152 :: 64 word) = 1048576 * 2" by simp
  show ?thesis using h u C2_threshold_selects_higher_unit [OF h, of 2097152] by blast
qed

text \<open>
  C3, as stated, fails. The claim is that the byte count scaled into \<^verbatim>\<open>TotalUsage\<close> is
  the byte count scaled into \<^verbatim>\<open>TotalSent\<close> plus the one scaled into \<^verbatim>\<open>TotalRecv\<close>.
  The sum \<^verbatim>\<open>totalSent+totalRecv\<close> is a \<^verbatim>\<open>uint64\<close> sum and wraps. With the readings
  100 sent and 200 received at the start and 50 sent and 300 received at the tick,
  \<^verbatim>\<open>totalSent\<close> is \<open>2^64 - 50\<close> and \<^verbatim>\<open>totalRecv\<close> is 100, their sum is \<open>2^64 + 50\<close>,
  and the quantity that is scaled is 50: the tick reports 17179869184 GB sent, 100 B
  received and a total usage of 50 B.
\<close>

theorem C3_counterexample:
  "getInterfaceIOCounters ''eth0'' (Inr [\<lparr>Name = ''eth0'', BytesSent = 50, BytesRecv = 300\<rparr>])
     = Inr \<lparr>Name = ''eth0'', BytesSent = 50, BytesRecv = 300\<rparr> \<and>
   uint (totalSent
      (init_state (NewNetworkMonitor ''eth0'' 1 2 ''json'')
          \<lparr>Name = ''eth0'', BytesSent = 100, BytesRecv = 200\<rparr>)
      \<lparr>Name = ''eth0'', BytesSent = 50, BytesRecv = 300\<rparr>) = 18446744073709551566 \<and>
   uint (totalRecv
      (init_state (NewNetworkMonitor ''eth0'' 1 2 ''json'')
          \<lparr>Name = ''eth0'', BytesSent = 100, BytesRecv = 200\<rparr>)
      \<lparr>Name = ''eth0'', BytesSent = 50, BytesRecv = 300\<rparr>) = 100 \<and>
   uint (totalSent
      (init_state (NewNetworkMonitor ''eth0'' 1 2 ''json'')
          \<lparr>Name = ''eth0'', BytesSent = 100, BytesRecv = 200\<rparr>)
      \<lparr>Name = ''eth0'', BytesSent = 50, BytesRecv = 300\<rparr>
    + totalRecv
      (init_state (NewNetworkMonitor ''eth0'' 1 2 ''json'')
          \<lparr>Name = ''eth0'', BytesSent = 100, BytesRecv = 200\<rparr>)
      \<lparr>Name = ''eth0'', BytesSent = 50, BytesRecv = 300\<rparr>) = 50 \<and>
   (18446744073709551566 + 100 :: int) \<noteq> 50 \<and>
   TotalSent (stats (nm (tick
      (init_state (NewNetworkMonitor ''eth0'' 1 2 ''json'')
          \<lparr>Name = ''eth0'', BytesSent = 100, BytesRecv = 200\<rparr>)
      (Inr [\<lparr>Name = ''eth0'', BytesSent = 50, BytesRecv = 300\<rparr>]))))
     = \<lparr>Usage.Value = Fin 17179869184, Unit = ''GB''\<rparr> \<and>
   TotalRecv (stats (nm (tick
      (init_state (NewNetworkMonitor ''eth0'' 1 2 ''json'')
          \<lparr>Name = ''eth0'', BytesSent = 100, BytesRecv = 200\<rparr>)
      (Inr [\<lparr>Name = ''eth0'', BytesSent = 50, BytesRecv = 300\<rparr>]))))
     = \<lparr>Usage.Value = Fin 100, Unit = ''B''\<rparr> \<and>
   TotalUsage (stats (nm (tick
      (init_state (NewNetworkMonitor ''eth0'' 1 2 ''json'')
          \<lparr>Name = ''eth0'', BytesSent = 100, BytesRecv = 200\<rparr>)
      (Inr [\<lparr>Name = ''eth0'', BytesSent = 50, BytesRecv = 300\<rparr>]))))
     = \<lparr>Usage.Value = Fin 50, Unit = ''B''\<rparr>"
proof -
  let ?st = "init_state (NewNetworkMonitor ''eth0'' 1 2 ''json'')
          \<lparr>Name = ''eth0'', BytesSent = 100, BytesRecv = 200\<rparr>"
  let ?cur = "\<lparr>Name = ''eth0'', BytesSent = 50, BytesRecv = 300\<rparr>"
  have q: "getInterfaceIOCounters ''eth0'' (Inr [?cur]) = Inr ?cur"
    by (simp add: getInterfaceIOCounters_def)
  have n: "interfaceName (nm ?st) = ''eth0''" "precision (nm ?st) = 2"
    by (simp_all add: init_state_def NewNetworkMonitor_def)
  have t: "totalSent ?st ?cur = 18446744073709551566" "totalRecv ?st ?cur = 100"
    by (simp_all add: totalSent_def totalRecv_def init_state_def)
  have u: "uint (18446744073709551566 :: 64 word) = 18446744073709551566"
    "uint (100 :: 64 word) = 100"
    "uint (18446744073709551566 + 100 :: 64 word) = 50"
    "(18446744073709551666 :: 64 word) = 50"
    by simp_all
  have c: "calculateUsage 18446744073709551566 2 = \<lparr>Usage.Value = Fin 17179869184, Unit = ''GB''\<rparr>"
    "calculateUsage 100 2 = \<lparr>Usage.Value = Fin 100, Unit = ''B''\<rparr>"
    "calculateUsage 50 2 = \<lparr>Usage.Value = Fin 50, Unit = ''B''\<rparr>"
    by code_simp+
  have s: "stats (nm (tick ?st (Inr [?cur]))) = make_stats ?st ?cur"
    by (rule tick_stats(1)) (simp add: n q)
  show ?thesis unfolding s by (simp add: q t u c n)
qed

text \<open>
  C3, amended. In the statistics of a successful tick, \<^verbatim>\<open>calculateUsage\<close> is applied to
  the \<^verbatim>\<open>uint64\<close> sum \<^verbatim>\<open>totalSent + totalRecv\<close> of the two byte counts that
  \<^verbatim>\<open>TotalSent\<close> and \<^verbatim>\<open>TotalRecv\<close> scale. That quantity is their sum modulo \<open>2^64\<close>; it
  is their sum exactly when the sum is below \<open>2^64\<close>. In particular, when neither
  counter is below its reading at the start and the two differences add up to less than
  \<open>2^64\<close>, it is the number of bytes sent plus the number of bytes received since the
  start.
\<close>

theorem C3_total_usage_is_sum_mod:
  assumes "getInterfaceIOCounters (interfaceName (nm st)) q = Inr cur"
  shows "TotalSent (stats (nm (tick st q))) = calculateUsage (totalSent st cur) (precision (nm st)) \<and>
         TotalRecv (stats (nm (tick st q))) = calculateUsage (totalRecv st cur) (precision (nm st)) \<and>
         TotalUsage (stats (nm (tick st q))) =
           calculateUsage (totalSent st cur + totalRecv st cur) (precision (nm st)) \<and>
         uint (totalSent st cur + totalRecv st cur) =
           (uint (totalSent st cur) + uint (totalRecv st cur)) mod 2 ^ 64 \<and>
         (uint (totalSent st cur + totalRecv st cur) = uint (totalSent st cur) + uint (totalRecv st cur)
            \<longleftrightarrow> uint (totalSent st cur) + uint (totalRecv st cur) < 2 ^ 64) \<and>
         (totalSentStart st \<le> BytesSent cur \<and> totalRecvStart st \<le> BytesRecv cur \<and>
          (uint (BytesSent cur) - uint (totalSentStart st)) +
          (uint (BytesRecv cur) - uint (totalRecvStart st)) < 2 ^ 64 \<longrightarrow>
            uint (totalSent st cur + totalRecv st cur) =
              (uint (BytesSent cur) - uint (totalSentStart st)) +
              (uint (BytesRecv cur) - uint (totalRecvStart st))) \<and>
         stdout (tick st q) = stdout st @ fst (print_stats (nm st) (stats (nm (tick st q))))"
proof -
  have a: "uint (totalSent st cur + totalRecv st cur) =
           (uint (totalSent st cur) + uint (totalRecv st cur)) mod 2 ^ 64"
    by (simp add: uint_word_ariths)
  note b = uint_add_exact_iff [of "totalSent st cur" "totalRecv st cur"]
  have c: "uint (totalSent st cur + totalRecv st cur) =
              (uint (BytesSent cur) - uint (totalSentStart st)) +
              (uint (BytesRecv cur) - uint (totalRecvStart st))"
    if "totalSentStart st \<le> BytesSent cur" "totalRecvStart st \<le> BytesRecv cur"
      "(uint (BytesSent cur) - uint (totalSentStart st)) +
          (uint (BytesRecv cur) - uint (totalRecvStart st)) < 2 ^ 64"
  proof -
    have s: "uint (totalSent st cur) = uint (BytesSent cur) - uint (totalSentStart st)"
      unfolding totalSent_def using that(1) by (rule uint_sub_no_wrap)
    have r: "uint (totalRecv st cur) = uint (BytesRecv cur) - uint (totalRecvStart st)"
      unfolding totalRecv_def using that(2) by (rule uint_sub_no_wrap)
    have "uint (totalSent st cur) + uint (totalRecv st cur) < 2 ^ 64" unfolding s r by (rule that(3))
    then show ?thesis using b unfolding s r by blast
  qed
  have d: "TotalSent (stats (nm (tick st q))) = calculateUsage (totalSent st cur) (precision (nm st))"
    "TotalRecv (stats (nm (tick st q))) = calculateUsage (totalRecv st cur) (precision (nm st))"
    "TotalUsage (stats (nm (tick st q))) =
           calculateUsage (totalSent st cur + totalRecv st cur) (precision (nm st))"
    "stdout (tick st q) = stdout st @ fst (print_stats (nm st) (stats (nm (tick st q))))"
    unfolding tick_stats [OF assms] by simp_all
  show ?thesis using a b c d by blast
qed

text \<open>
  The amended C3 on a tick that has sent 1000 and received 2000 bytes since the start: the
  usage is scaled from 3000 bytes.
\<close>

theorem C3_witness:
  "getInterfaceIOCounters ''eth0'' (Inr [\<lparr>Name = ''eth0'', BytesSent = 1100, BytesRecv = 2200\<rparr>])
     = Inr \<lparr>Name = ''eth0'', BytesSent = 1100, BytesRecv = 2200\<rparr> \<and>
   (100 :: 64 word) \<le> 1100 \<and> (200 :: 64 word) \<le> 2200 \<and>
   ((1100 - 100) + (2200 - 200) :: int) < 2 ^ 64 \<and>
   uint (totalSent
      (init_state (NewNetworkMonitor ''eth0'' 1 2 ''json'')
          \<lparr>Name = ''eth0'', BytesSent = 100, BytesRecv = 200\<rparr>)
      \<lparr>Name = ''eth0'', BytesSent = 1100, BytesRecv = 2200\<rparr>
    + totalRecv
      (init_state (NewNetworkMonitor ''eth0'' 1 2 ''json'')
          \<lparr>Name = ''eth0'', BytesSent = 100, BytesRecv = 200\<rparr>)
      \<lparr>Name = ''eth0'', BytesSent = 1100, BytesRecv = 2200\<rparr>) = 3000 \<and>
   TotalUsage (stats (nm (tick
      (init_state (NewNetworkMonitor ''eth0'' 1 2 ''json'')
          \<lparr>Name = ''eth0'', BytesSent = 100, BytesRecv = 200\<rparr>)
      (Inr [\<lparr>Name = ''eth0'', BytesSent = 1100, BytesRecv = 2200\<rparr>])))) =
     calculateUsage (1000 + 2000) 2"
proof -
  let ?st = "init_state (NewNetworkMonitor ''eth0'' 1 2 ''json'')
          \<lparr>Name = ''eth0'', BytesSent = 100, BytesRecv = 200\<rparr>"
  let ?cur = "\<lparr>Name = ''eth0'', BytesSent = 1100, BytesRecv = 2200\<rparr>"
  have n: "interfaceName (nm ?st) = ''eth0''" by (simp add: init_state_def NewNetworkMonitor_def)
  have q: "getInterfaceIOCounters (interfaceName (nm ?st)) (Inr [?cur]) = Inr ?cur"
    unfolding n by (simp add: getInterfaceIOCounters_def)
  have v: "totalSent ?st ?cur = 1000" "totalRecv ?st ?cur = 2000" "precision (nm ?st) = 2"
    by (simp_all add: totalSent_def totalRecv_def init_state_def NewNetworkMonitor_def)
  have h: "totalSentStart ?st \<le> BytesSent ?cur" "totalRecvStart ?st \<le> BytesRecv ?cur"
    "(uint (BytesSent ?cur) - uint (totalSentStart ?st)) +
          (uint (BytesRecv ?cur) - uint (totalRecvStart ?st)) < 2 ^ 64"
    by (simp_all add: init_state_def)
  have e: "(uint (BytesSent ?cur) - uint (totalSentStart ?st)) +
          (uint (BytesRecv ?cur) - uint (totalRecvStart ?st)) = 3000"
    by (simp add: init_state_def)
  have k: "(100 :: 64 word) \<le> 1100" "(200 :: 64 word) \<le> 2200"
    "((1100 - 100) + (2200 - 200) :: int) < 2 ^ 64" by simp_all
  note C = C3_total_usage_is_sum_mod [OF q]
  from C h have "uint (totalSent ?st ?cur + totalRecv ?st ?cur) =
      (uint (BytesSent ?cur) - uint (totalSentStart ?st)) +
          (uint (BytesRecv ?cur) - uint (totalRecvStart ?st))" by blast
  then have 1: "uint (totalSent ?st ?cur + totalRecv ?st ?cur) = 3000" unfolding e .
  from C have 2: "TotalUsage (stats (nm (tick ?st (Inr [?cur])))) =
      calculateUsage (totalSent ?st ?cur + totalRecv ?st ?cur) (precision (nm ?st))" by blast
  show ?thesis using q k 1 2 unfolding n v by blast
qed



text \<open>
  C5, as stated, fails. The claim is that \<^verbatim>\<open>calculateSpeed(bytes, interval, p)\<close> picks
  the unit U/s exactly when \<^verbatim>\<open>calculateUsage\<close> of the rounded rate picks U. For 3071
  bytes over 3 seconds the rate is 1023.67 bytes per second, below the threshold, and the
  speed is in B/s; the rounded rate is 1024, and the usage of 1024 bytes is in KB.
\<close>

theorem C5_counterexample:
  "Speed.Unit (calculateSpeed 3071 3 2) = ''B/s'' \<and>
   spec_rounded_rate 3071 3 = 1024 \<and>
   Usage.Unit (calculateUsage (spec_rounded_rate 3071 3) 2) = ''KB''"
  by code_simp

text \<open>
  C5, amended. For every byte count, every interval from 1 to 3600 (the intervals that
  \<^verbatim>\<open>main\<close> accepts) and every precision, \<^verbatim>\<open>calculateSpeed(bytes, interval, p)\<close> picks
  the unit U/s exactly when \<^verbatim>\<open>calculateUsage\<close> picks U for the rate cut off to a whole
  number of bytes, \<open>bytes div interval\<close>: the same thresholds, applied to the divided rate.
\<close>

theorem C5_unit_of_truncated_rate:
  assumes "1 \<le> i" and "i \<le> 3600"
  shows "Speed.Unit (calculateSpeed b i p) = Usage.Unit (calculateUsage (truncated_rate b i) p) @ ''/s''"
  unfolding calculateSpeed_unit_eq [OF assms] calculateUsage_unit_eq uint_truncated_rate [OF assms(1)]
  by simp

text \<open>The amended C5 at 3071 bytes over 3 seconds: both pick bytes.\<close>

theorem C5_witness:
  "(1::int) \<le> 3 \<and> (3::int) \<le> 3600 \<and> truncated_rate 3071 3 = 1023 \<and>
   Speed.Unit (calculateSpeed 3071 3 2) = Usage.Unit (calculateUsage 1023 2) @ ''/s''"
proof -
  have h: "(1::int) \<le> 3" "(3::int) \<le> 3600" by simp_all
  have t: "truncated_rate 3071 3 = 1023" by (simp add: truncated_rate_def)
  from C5_unit_of_truncated_rate [OF h, of 3071 2] show ?thesis using h t by simp
qed

text \<open>
  The bound on the interval is needed: over \<open>2^34\<close> seconds, \<open>2^64 - 1\<close> bytes are
  converted to the \<^verbatim>\<open>float64\<close> \<open>2^64\<close> and the speed is 1 GB/s, one byte short of it
  in whole numbers.
\<close>

lemma speed_unit_long_interval:
  "Speed.Unit (calculateSpeed (- 1) (2 ^ 34) 2) = ''GB/s'' \<and>
   Usage.Unit (calculateUsage (truncated_rate (- 1) (2 ^ 34)) 2) = ''MB''"
  by code_simp

text \<open>
  C6. Let the counter of sent bytes never decrease, from the reading at the start on, and
  let every tick succeed. Then the byte count that a tick scales into \<^verbatim>\<open>TotalSent\<close> is
  at least the one of the tick before. (Readings are numbered from 0: tick \<open>n\<close> reads
  \<open>cs ! n\<close> in the state that the first \<open>n\<close> ticks have left.)
\<close>

theorem C6_totals_do_not_decrease:
  assumes "map (getInterfaceIOCounters (interfaceName m)) qs = map Inr cs"
    and "sorted (BytesSent io0 # map BytesSent cs)"
    and "Suc n < length cs"
  shows "totalSent (ticks (init_state m io0) (take n qs)) (cs ! n)
           \<le> totalSent (ticks (init_state m io0) (take (Suc n) qs)) (cs ! Suc n) \<and>
         TotalSent (stats (nm (ticks (init_state m io0) (take (Suc n) qs)))) =
           calculateUsage (totalSent (ticks (init_state m io0) (take n qs)) (cs ! n)) (precision m) \<and>
         TotalSent (stats (nm (ticks (init_state m io0) (take (Suc (Suc n)) qs)))) =
           calculateUsage (totalSent (ticks (init_state m io0) (take (Suc n) qs)) (cs ! Suc n)) (precision m) \<and>
         loop (init_state m io0) (map Tick qs) = (ticks (init_state m io0) qs, False)"
proof -
  let ?st = "init_state m io0"
  have len: "length qs = length cs" using assms(1) by (metis length_map)
  have nm: "interfaceName (nm ?st) = interfaceName m" "totalSentStart ?st = BytesSent io0"
    "precision (nm ?st) = precision m"
    by (simp_all add: init_state_def)
  have q: "getInterfaceIOCounters (interfaceName m) (qs ! k) = Inr (cs ! k)" if "k < length cs" for k
  proof -
    have "map (getInterfaceIOCounters (interfaceName m)) qs ! k = map Inr cs ! k"
      using assms(1) by simp
    then show ?thesis using that len by simp
  qed
  have step: "stats (nm (ticks ?st (take (Suc k) qs))) = make_stats (ticks ?st (take k qs)) (cs ! k)"
    if "k < length cs" for k
  proof -
    have "getInterfaceIOCounters (interfaceName (nm (ticks ?st (take k qs)))) (qs ! k) = Inr (cs ! k)"
      using q [OF that] nm(1) by simp
    from tick_stats(1) [OF this] show ?thesis using that len by (simp add: ticks_take_Suc)
  qed
  have n1: "n < length cs" using assms(3) by simp
  have a: "BytesSent io0 \<le> BytesSent (cs ! n)" using assms(2) n1 by simp
  have "sorted (map BytesSent cs)" using assms(2) by simp
  then have "map BytesSent cs ! n \<le> map BytesSent cs ! Suc n"
    using assms(3) by (intro sorted_nth_mono) simp_all
  then have b: "BytesSent (cs ! n) \<le> BytesSent (cs ! Suc n)" using assms(3) by simp
  have "BytesSent (cs ! n) - BytesSent io0 \<le> BytesSent (cs ! Suc n) - BytesSent io0"
    using a b by (rule word_sub_mono_left)
  then have 1: "totalSent (ticks ?st (take n qs)) (cs ! n)
           \<le> totalSent (ticks ?st (take (Suc n) qs)) (cs ! Suc n)"
    by (simp add: totalSent_def nm)
  show ?thesis using 1 step [OF n1] step [OF assms(3)] loop_ticks [of ?st qs] by (simp add: nm)
qed

text \<open>C6 on the readings 100 (start), 150 and 175: the totals are 50 and then 75 bytes.\<close>

theorem C6_witness:
  "map (getInterfaceIOCounters (interfaceName (NewNetworkMonitor ''eth0'' 1 2 ''json'')))
     [Inr [\<lparr>Name = ''eth0'', BytesSent = 150, BytesRecv = 200\<rparr>],
      Inr [\<lparr>Name = ''eth0'', BytesSent = 175, BytesRecv = 200\<rparr>]]
     = map Inr [\<lparr>Name = ''eth0'', BytesSent = 150, BytesRecv = 200\<rparr>,
                \<lparr>Name = ''eth0'', BytesSent = 175, BytesRecv = 200\<rparr>] \<and>
   sorted [100, 150, 175 :: 64 word] \<and>
   totalSent (ticks (init_state (NewNetworkMonitor ''eth0'' 1 2 ''json'')
                \<lparr>Name = ''eth0'', BytesSent = 100, BytesRecv = 200\<rparr>) [])
        \<lparr>Name = ''eth0'', BytesSent = 150, BytesRecv = 200\<rparr>
     \<le> totalSent (ticks (init_state (NewNetworkMonitor ''eth0'' 1 2 ''json'')
                \<lparr>Name = ''eth0'', BytesSent = 100, BytesRecv = 200\<rparr>)
                [Inr [\<lparr>Name = ''eth0'', BytesSent = 150, BytesRecv = 200\<rparr>]])
        \<lparr>Name = ''eth0'', BytesSent = 175, BytesRecv = 200\<rparr>"
proof -
  let ?m = "NewNetworkMonitor ''eth0'' 1 2 ''json''"
  let ?io0 = "\<lparr>Name = ''eth0'', BytesSent = 100, BytesRecv = 200\<rparr>"
  let ?c1 = "\<lparr>Name = ''eth0'', BytesSent = 150, BytesRecv = 200\<rparr>"
  let ?c2 = "\<lparr>Name = ''eth0'', BytesSent = 175, BytesRecv = 200\<rparr>"
  let ?qs = "[Inr [?c1], Inr [?c2]] :: query list"
  have h1: "map (getInterfaceIOCounters (interfaceName ?m)) ?qs = map Inr [?c1, ?c2]"
    by (simp add: getInterfaceIOCounters_def NewNetworkMonitor_def)
  have h2: "sorted (BytesSent ?io0 # map BytesSent [?c1, ?c2])" by simp
  have h2': "sorted [100, 150, 175 :: 64 word]" by simp
  have h3: "Suc 0 < length [?c1, ?c2]" by simp
  from C6_totals_do_not_decrease [OF h1 h2 h3] show ?thesis using h1 h2' by simp
qed

text \<open>
  C7. When two ticks in a row read the same byte counters, the second one has the deltas
  0 sent and 0 received, reports both speeds as 0 B/s, and scales the same totals as the
  first one. (Interval of at least 1 and precision from 0 to 6, as \<^verbatim>\<open>main\<close> ensures.)
\<close>

theorem C7_same_counters_twice:
  assumes "getInterfaceIOCounters (interfaceName (nm st)) q1 = Inr c1"
    and "getInterfaceIOCounters (interfaceName (nm st)) q2 = Inr c2"
    and "BytesSent c2 = BytesSent c1" and "BytesRecv c2 = BytesRecv c1"
    and "1 \<le> refreshInterval (nm st)" and "0 \<le> precision (nm st)" and "precision (nm st) \<le> 6"
  shows "sentBytes (tick st q1) c2 = 0 \<and> recvBytes (tick st q1) c2 = 0 \<and>
         SentSpeed (stats (nm (tick (tick st q1) q2))) = \<lparr>Speed.Value = Fin 0, Unit = ''B/s''\<rparr> \<and>
         RecvSpeed (stats (nm (tick (tick st q1) q2))) = \<lparr>Speed.Value = Fin 0, Unit = ''B/s''\<rparr> \<and>
         totalSent (tick st q1) c2 = totalSent st c1 \<and>
         totalRecv (tick st q1) c2 = totalRecv st c1 \<and>
         TotalSent (stats (nm (tick (tick st q1) q2))) = TotalSent (stats (nm (tick st q1))) \<and>
         TotalRecv (stats (nm (tick (tick st q1) q2))) = TotalRecv (stats (nm (tick st q1))) \<and>
         TotalUsage (stats (nm (tick (tick st q1) q2))) = TotalUsage (stats (nm (tick st q1)))"
proof -
  let ?st1 = "tick st q1"
  have q2: "getInterfaceIOCounters (interfaceName (nm ?st1)) q2 = Inr c2" using assms(2) by simp
  have p: "prevNetIO ?st1 = c1" by (rule tick_stats(2) [OF assms(1)])
  have d: "sentBytes ?st1 c2 = 0" "recvBytes ?st1 c2 = 0"
    by (simp_all add: sentBytes_def recvBytes_def p assms(3,4))
  have t: "totalSent ?st1 c2 = totalSent st c1" "totalRecv ?st1 c2 = totalRecv st c1"
    by (simp_all add: totalSent_def totalRecv_def assms(3,4))
  have z: "calculateSpeed 0 (refreshInterval (nm st)) (precision (nm st))
      = \<lparr>Speed.Value = Fin 0, Unit = ''B/s''\<rparr>"
    by (rule calculateSpeed_zero [OF assms(5-7)])
  show ?thesis unfolding tick_stats(1) [OF q2] tick_stats(1) [OF assms(1)]
    by (simp add: d t z)
qed

text \<open>C7 on the readings 100 (start), 150 and 150 again.\<close>

theorem C7_witness:
  "(let st = init_state (NewNetworkMonitor ''eth0'' 1 2 ''json'')
               \<lparr>Name = ''eth0'', BytesSent = 100, BytesRecv = 200\<rparr>;
        q = Inr [\<lparr>Name = ''eth0'', BytesSent = 150, BytesRecv = 230\<rparr>]
    in getInterfaceIOCounters (interfaceName (nm st)) q
         = Inr \<lparr>Name = ''eth0'', BytesSent = 150, BytesRecv = 230\<rparr> \<and>
       1 \<le> refreshInterval (nm st) \<and> 0 \<le> precision (nm st) \<and> precision (nm st) \<le> 6 \<and>
       SentSpeed (stats (nm (tick (tick st q) q))) = \<lparr>Speed.Value = Fin 0, Unit = ''B/s''\<rparr> \<and>
       RecvSpeed (stats (nm (tick (tick st q) q))) = \<lparr>Speed.Value = Fin 0, Unit = ''B/s''\<rparr> \<and>
       TotalUsage (stats (nm (tick (tick st q) q))) = TotalUsage (stats (nm (tick st q))))"
proof -
  let ?st = "init_state (NewNetworkMonitor ''eth0'' 1 2 ''json'')
               \<lparr>Name = ''eth0'', BytesSent = 100, BytesRecv = 200\<rparr>"
  let ?c = "\<lparr>Name = ''eth0'', BytesSent = 150, BytesRecv = 230\<rparr>"
  let ?q = "Inr [?c] :: query"
  have g: "getInterfaceIOCounters (interfaceName (nm ?st)) ?q = Inr ?c"
    by (simp add: getInterfaceIOCounters_def init_state_def NewNetworkMonitor_def)
  have h: "1 \<le> refreshInterval (nm ?st)" "0 \<le> precision (nm ?st)" "precision (nm ?st) \<le> 6"
    by (simp_all add: init_state_def NewNetworkMonitor_def)
  from C7_same_counters_twice [OF g g refl refl h] show ?thesis using g h unfolding Let_def by blast
qed

text \<open>
  C8. Flags that break a constraint (no interface name, a precision outside 0 to 6, an
  interval outside 1 to 3600, a format other than json and table) end the process at
  once: exit status 1, a message on standard error, nothing rendered, and the same
  outcome whatever the counter source and the events would have been, since no counter
  is queried and the loop is not entered.
\<close>

theorem C8_invalid_flags_exit:
  assumes "flag_i fl = [] \<or> flag_p fl < 0 \<or> 6 < flag_p fl \<or> flag_t fl < 1 \<or> 3600 < flag_t fl \<or>
           (flag_f fl \<noteq> ''json'' \<and> flag_f fl \<noteq> ''table'')"
  shows "exit_status (main fl q0 es) = Some 1 \<and>
         err (main fl q0 es) \<noteq> [] \<and>
         out (main fl q0 es) = (if flag_i fl = [] then [TextOut [CHR 0x0A]] else []) \<and>
         main fl q0 es = main fl q0' es'"
proof -
  have b: "\<not> flags_ok fl" using assms unfolding flags_ok_def by auto
  show ?thesis using main_bad [OF b, of q0 es] main_bad_indep [OF b, of q0 es q0' es'] by blast
qed

text \<open>C8 at the five command lines of the specification.\<close>

theorem C8_witness:
  "exit_status (main \<lparr>flag_i = ''eth0'', flag_t = 1, flag_p = 7, flag_f = ''table''\<rparr>
      (Inr [\<lparr>Name = ''eth0'', BytesSent = 100, BytesRecv = 200\<rparr>]) [Interrupt]) = Some 1 \<and>
   exit_status (main \<lparr>flag_i = ''eth0'', flag_t = 0, flag_p = 2, flag_f = ''table''\<rparr>
      (Inr [\<lparr>Name = ''eth0'', BytesSent = 100, BytesRecv = 200\<rparr>]) [Interrupt]) = Some 1 \<and>
   exit_status (main \<lparr>flag_i = ''eth0'', flag_t = 3601, flag_p = 2, flag_f = ''table''\<rparr>
      (Inr [\<lparr>Name = ''eth0'', BytesSent = 100, BytesRecv = 200\<rparr>]) [Interrupt]) = Some 1 \<and>
   exit_status (main \<lparr>flag_i = [], flag_t = 1, flag_p = 2, flag_f = ''table''\<rparr>
      (Inr [\<lparr>Name = ''eth0'', BytesSent = 100, BytesRecv = 200\<rparr>]) [Interrupt]) = Some 1 \<and>
   exit_status (main \<lparr>flag_i = ''eth0'', flag_t = 1, flag_p = 2, flag_f = ''xml''\<rparr>
      (Inr [\<lparr>Name = ''eth0'', BytesSent = 100, BytesRecv = 200\<rparr>]) [Interrupt]) = Some 1 \<and>
   exit_status (main \<lparr>flag_i = ''eth0'', flag_t = 1, flag_p = 2, flag_f = ''table''\<rparr>
      (Inr [\<lparr>Name = ''eth0'', BytesSent = 100, BytesRecv = 200\<rparr>]) [Interrupt]) = Some 0"
proof -
  let ?q = "Inr [\<lparr>Name = ''eth0'', BytesSent = 100, BytesRecv = 200\<rparr>] :: query"
  have 1: "exit_status (main \<lparr>flag_i = ''eth0'', flag_t = 1, flag_p = 7, flag_f = ''table''\<rparr> ?q [Interrupt]) = Some 1"
    using C8_invalid_flags_exit [of "\<lparr>flag_i = ''eth0'', flag_t = 1, flag_p = 7, flag_f = ''table''\<rparr>" ?q "[Interrupt]"]
    by simp
  have 2: "exit_status (main \<lparr>flag_i = ''eth0'', flag_t = 0, flag_p = 2, flag_f = ''table''\<rparr> ?q [Interrupt]) = Some 1"
    using C8_invalid_flags_exit [of "\<lparr>flag_i = ''eth0'', flag_t = 0, flag_p = 2, flag_f = ''table''\<rparr>" ?q "[Interrupt]"]
    by simp
  have 3: "exit_status (main \<lparr>flag_i = ''eth0'', flag_t = 3601, flag_p = 2, flag_f = ''table''\<rparr> ?q [Interrupt]) = Some 1"
    using C8_invalid_flags_exit [of "\<lparr>flag_i = ''eth0'', flag_t = 3601, flag_p = 2, flag_f = ''table''\<rparr>" ?q "[Interrupt]"]
    by simp
  have 4: "exit_status (main \<lparr>flag_i = [], flag_t = 1, flag_p = 2, flag_f = ''table''\<rparr> ?q [Interrupt]) = Some 1"
    using C8_invalid_flags_exit [of "\<lparr>flag_i = [], flag_t = 1, flag_p = 2, flag_f = ''table''\<rparr>" ?q "[Interrupt]"]
    by simp
  have 5: "exit_status (main \<lparr>flag_i = ''eth0'', flag_t = 1, flag_p = 2, flag_f = ''xml''\<rparr> ?q [Interrupt]) = Some 1"
    using C8_invalid_flags_exit [of "\<lparr>flag_i = ''eth0'', flag_t = 1, flag_p = 2, flag_f = ''xml''\<rparr>" ?q "[Interrupt]"]
    by simp
  have 6: "exit_status (main \<lparr>flag_i = ''eth0'', flag_t = 1, flag_p = 2, flag_f = ''table''\<rparr> ?q [Interrupt]) = Some 0"
    by code_simp
  show ?thesis using 1 2 3 4 5 6 by blast
qed

text \<open>
  C9. The two worked examples: a delta of 12,958,993 bytes over one second at precision 2
  is 12.36 MB/s, and 1,321,528,114 bytes at precision 2 are 1.23 GB. The values are the
  \<^verbatim>\<open>float64\<close> numbers that the decimals 12.36 and 1.23 denote, that is, the binary64
  numbers nearest to them; both are printed as written here by \<^verbatim>\<open>%.2f\<close> and by the JSON
  encoder.
\<close>

theorem C9_examples:
  "calculateSpeed 12958993 1 2 = \<lparr>Speed.Value = round64 (1236 / 100), Unit = ''MB/s''\<rparr> \<and>
   calculateUsage 1321528114 2 = \<lparr>Usage.Value = round64 (123 / 100), Unit = ''GB''\<rparr> \<and>
   round64 (1236 / 100) = Fin (869757678035927 / 70368744177664) \<and>
   \<bar>869757678035927 / 70368744177664 - 1236 / 100 :: rat\<bar> < 1 / 10 ^ 15 \<and>
   round64 (123 / 100) = Fin (2769713770832855 / 2251799813685248) \<and>
   \<bar>2769713770832855 / 2251799813685248 - 123 / 100 :: rat\<bar> < 1 / 10 ^ 15"
  by code_simp

text \<open>
  C10. For every \<^verbatim>\<open>uint64\<close> byte count, every interval of at least 1 and every precision
  from 0 to 6, \<^verbatim>\<open>calculateSpeed\<close> returns a finite value that is at least 0 with a unit
  among B/s, KB/s, MB/s, GB/s, and \<^verbatim>\<open>calculateUsage\<close> a finite value that is at least 0
  with a unit among B, KB, MB, GB. Every delta and total is a \<^verbatim>\<open>uint64\<close>, so whatever
  the flags, the counter readings and the events are, nothing that \<^verbatim>\<open>main\<close> hands to a
  renderer holds a negative value.
\<close>

theorem C10_no_negative_value:
  assumes "1 \<le> interval" and "0 \<le> p" and "p \<le> 6"
  shows "(\<exists>r. Speed.Value (calculateSpeed bytes interval p) = Fin r \<and> 0 \<le> r) \<and>
         Speed.Unit (calculateSpeed bytes interval p) \<in> {''B/s'', ''KB/s'', ''MB/s'', ''GB/s''} \<and>
         (\<exists>r. Usage.Value (calculateUsage bytes p) = Fin r \<and> 0 \<le> r) \<and>
         Usage.Unit (calculateUsage bytes p) \<in> {''B'', ''KB'', ''MB'', ''GB''} \<and>
         list_all item_nonneg (out (main fl q0 es))"
  using calculateSpeed_value [OF assms] calculateSpeed_unit calculateUsage_value [OF assms(2,3)]
    calculateUsage_unit main_nonneg
  by blast

text \<open>C10 at the wrapped delta \<open>2^64 - 50\<close>, and on a run whose first tick sees a rollback.\<close>

theorem C10_witness:
  "(1::int) \<le> 1 \<and> (0::int) \<le> 2 \<and> (2::int) \<le> 6 \<and>
   (\<exists>r. Speed.Value (calculateSpeed (- 50) 1 2) = Fin r \<and> 0 \<le> r) \<and>
   Speed.Unit (calculateSpeed (- 50) 1 2) \<in> {''B/s'', ''KB/s'', ''MB/s'', ''GB/s''} \<and>
   (\<exists>r. Usage.Value (calculateUsage (- 50) 2) = Fin r \<and> 0 \<le> r) \<and>
   Usage.Unit (calculateUsage (- 50) 2) \<in> {''B'', ''KB'', ''MB'', ''GB''} \<and>
   list_all item_nonneg
     (out (main \<lparr>flag_i = ''eth0'', flag_t = 1, flag_p = 2, flag_f = ''json''\<rparr>
        (Inr [\<lparr>Name = ''eth0'', BytesSent = 100, BytesRecv = 200\<rparr>])
        [Tick (Inr [\<lparr>Name = ''eth0'', BytesSent = 50, BytesRecv = 300\<rparr>]), Interrupt]))"
proof -
  have h: "(1::int) \<le> 1" "(0::int) \<le> 2" "(2::int) \<le> 6" by simp_all
  show ?thesis using h C10_no_negative_value [OF h] by blast
qed

end
